theory Spec2Isabelle
  imports Complex_Main "HOL-Library.Multiset"
begin

section \<open>Expense tracker: aggregation, submission and archival\<close>

text \<open>
  The development embeds the handlers of the \<open>App\<close> component: the memoised computation
  of \<open>totalSpent\<close> and \<open>categoryData\<close>, \<open>handleSubmit\<close> with \<open>categorizeExpense\<close> and
  \<open>fetchWithBackoff\<close>, and \<open>handleResetAndArchive\<close>.

  Conventions of the embedding.
  \<^item> A JavaScript number is an exact rational (\<open>rat\<close>): sums, quotients and comparisons are
    those of exact arithmetic, \<open>NaN\<close> is \<open>None\<close> where a parse or a division can produce it.
    Sums that leave the range of a double (\<open>Infinity\<close>) are not described.
  \<^item> A JavaScript string is a \<open>string\<close>, read as its UTF-8 bytes.
  \<^item> The accumulator \<open>{}\<close> of the reduction is the list of its own properties in creation
    order, together with the members it inherits from \<open>Object.prototype\<close> (\<open>constructor\<close>,
    \<open>toString\<close>, \<open>__proto__\<close>, ...): \<open>acc[category]\<close> reads those when the label names one.
    A value of the accumulator is a number or a text, whose characters play no part.
  \<^item> A category or classification is an optional string: \<open>None\<close> is \<open>undefined\<close>.
\<close>

subsection \<open>Data model\<close>

text \<open>The fields of a document of the \<open>expenses\<close> collection, as \<open>handleSubmit\<close> writes them.\<close>

record doc_data =
  amount :: rat
  description :: string
  category :: "string option"
  classification :: "string option"
  timestamp :: "int option"

text \<open>
  An element of the state variable \<open>expenses\<close>: the snapshot listener builds
  \<open>{id: doc.id, ...doc.data(), category: ..., date: ...}\<close>.
\<close>

record expense = doc_data +
  expense_id :: string
  date :: int

text \<open>
  A value that the accumulator of the aggregation holds and that an entry carries as its
  total: a number, or the text that \<open>+\<close> builds once its left operand is not a number
  (the source text of a function followed by the amounts added since). The text itself is
  left out: it is never empty and never reads as a number.
\<close>

datatype jsval = Number rat | Text

text \<open>An element of \<open>categoryData\<close>; \<open>None\<close> is the percentage \<open>NaN\<close>.\<close>

record summary_entry =
  entry_category :: string
  total :: jsval
  percentage :: "rat option"

subsection \<open>Plain objects used as dictionaries\<close>

text \<open>The own properties of an object, in creation order.\<close>

type_synonym 'v obj = "(string \<times> 'v) list"

text \<open>
  The members that an object created by \<open>{}\<close> inherits from \<open>Object.prototype\<close>: eleven
  functions, and the accessor \<open>__proto__\<close>, whose getter returns \<open>Object.prototype\<close> and
  whose setter ignores a value that is neither an object nor \<open>null\<close>.
\<close>

definition prototype_functions :: "string list" where
  "prototype_functions =
     [''constructor'', ''hasOwnProperty'', ''isPrototypeOf'', ''propertyIsEnumerable'',
      ''toLocaleString'', ''toString'', ''valueOf'', ''__defineGetter__'',
      ''__defineSetter__'', ''__lookupGetter__'', ''__lookupSetter__'']"

definition inherited_member :: "string \<Rightarrow> bool" where
  "inherited_member k \<longleftrightarrow> k = ''__proto__'' \<or> k \<in> set prototype_functions"

text \<open>
  \<open>acc[k]\<close>: the own property when there is one, else the inherited member (a function or
  \<open>Object.prototype\<close>, an object either way), else \<open>undefined\<close>.
\<close>

datatype lookup = Undefined | Own jsval | Inherited

definition obj_get :: "jsval obj \<Rightarrow> string \<Rightarrow> lookup" where
  "obj_get ob k =
     (case map_of ob k of
        Some v \<Rightarrow> Own v
      | None \<Rightarrow> if inherited_member k then Inherited else Undefined)"

text \<open>An own property is overwritten in place; a new one is created last.\<close>

fun obj_set :: "'v obj \<Rightarrow> string \<Rightarrow> 'v \<Rightarrow> 'v obj" where
  "obj_set [] k v = [(k, v)]"
| "obj_set ((k', v') # ps) k v = (if k' = k then (k, v) # ps else (k', v') # obj_set ps k v)"

text \<open>
  \<open>acc[k] = v\<close> for a number or a string \<open>v\<close>: through the accessor \<open>__proto__\<close> the
  assignment creates no property; under any other key it writes an own property (an
  inherited function is a writable data property, which the assignment shadows).
\<close>

definition obj_assign :: "jsval obj \<Rightarrow> string \<Rightarrow> jsval \<Rightarrow> jsval obj" where
  "obj_assign ob k v = (if k = ''__proto__'' then ob else obj_set ob k v)"

definition is_digit :: "char \<Rightarrow> bool" where
  "is_digit c \<longleftrightarrow> c \<in> set ''0123456789''"

definition digit_value :: "char \<Rightarrow> int" where
  "digit_value c = of_char c - 48"

definition decimal :: "string \<Rightarrow> int" where
  "decimal ds = foldl (\<lambda>n c. 10 * n + digit_value c) 0 ds"

text \<open>
  An array index is a canonical numeric string below \<open>2^32 - 1\<close>. \<open>Object.keys\<close> lists the
  array-index keys first, in ascending numeric order, then the other keys in creation order.
\<close>

definition is_array_index :: "string \<Rightarrow> bool" where
  "is_array_index k \<longleftrightarrow>
     k \<noteq> [] \<and> list_all is_digit k \<and> (length k = 1 \<or> hd k \<noteq> CHR ''0'') \<and> decimal k < 4294967295"

definition object_keys :: "'v obj \<Rightarrow> string list" where
  "object_keys ob =
     sort_key decimal (filter is_array_index (map fst ob))
       @ filter (\<lambda>k. \<not> is_array_index k) (map fst ob)"

subsection \<open>AggregationEngine: \<open>totalSpent\<close> and \<open>categoryData\<close>\<close>

text \<open>\<open>expense.category || 'No Categorizado'\<close>: \<open>undefined\<close> and the empty string are falsy.\<close>

definition label :: "expense \<Rightarrow> string" where
  "label e = (case category e of
                None \<Rightarrow> ''No Categorizado''
              | Some c \<Rightarrow> if c = [] then ''No Categorizado'' else c)"

text \<open>
  \<open>(acc[category] || 0) + expense.amount\<close>: \<open>undefined\<close> and \<open>0\<close> are falsy and give way to
  \<open>0\<close>; an object and a non-empty string are truthy, and \<open>+\<close> then concatenates.
\<close>

definition accumulate :: "lookup \<Rightarrow> rat \<Rightarrow> jsval" where
  "accumulate r a =
     (case r of
        Undefined \<Rightarrow> Number (0 + a)
      | Own v \<Rightarrow> (case v of Number x \<Rightarrow> Number ((if x = 0 then 0 else x) + a) | Text \<Rightarrow> Text)
      | Inherited \<Rightarrow> Text)"

text \<open>\<open>expenses.reduce((sum, expense) => sum + expense.amount, 0)\<close>\<close>

definition total_of :: "expense list \<Rightarrow> rat" where
  "total_of es = foldl (\<lambda>sum e. sum + amount e) 0 es"

definition totals_step :: "jsval obj \<Rightarrow> expense \<Rightarrow> jsval obj" where
  "totals_step acc e =
     (let c = label e in obj_assign acc c (accumulate (obj_get acc c) (amount e)))"

definition totals_of :: "expense list \<Rightarrow> jsval obj" where
  "totals_of es = foldl totals_step [] es"

text \<open>
  \<open>Object.keys(totals).map(category => ({category, total: totals[category], percentage:
  total > 0 ? (totals[category] / total) * 100 : 0}))\<close>. Every key listed is an own
  property, so \<open>totals[category]\<close> reads an own value (lemma \<open>obj_get_object_keys\<close>); the
  other cases of \<open>own_value\<close> only make the definition total. A text divided by a number
  is \<open>NaN\<close>, which is \<open>None\<close>.
\<close>

definition own_value :: "lookup \<Rightarrow> jsval" where
  "own_value r = (case r of Own v \<Rightarrow> v | Undefined \<Rightarrow> Text | Inherited \<Rightarrow> Text)"

definition percent_of :: "jsval \<Rightarrow> rat \<Rightarrow> rat option" where
  "percent_of v tot = (case v of Number x \<Rightarrow> Some ((x / tot) * 100) | Text \<Rightarrow> None)"

definition data_of :: "rat \<Rightarrow> jsval obj \<Rightarrow> summary_entry list" where
  "data_of tot totals =
     map (\<lambda>c. \<lparr> entry_category = c,
                total = own_value (obj_get totals c),
                percentage = (if tot > 0 then percent_of (own_value (obj_get totals c)) tot
                              else Some 0) \<rparr>)
         (object_keys totals)"

text \<open>
  \<open>data.sort((a, b) => b.total - a.total)\<close>. The difference is \<open>NaN\<close> when a total is a
  text, and \<open>Array.prototype.sort\<close> reads a \<open>NaN\<close> from the comparator as \<open>+0\<close>. The sort is
  stable: with a consistent comparator its result is the one that insertion by the
  comparator gives. With a comparator that is not consistent (a text total next to two
  different numbers) the language leaves the order to the implementation; insertion is
  then what the common engines do on so short an array.
\<close>

definition compare_totals :: "summary_entry \<Rightarrow> summary_entry \<Rightarrow> rat" where
  "compare_totals a b =
     (case total a of
        Number x \<Rightarrow> (case total b of Number y \<Rightarrow> y - x | Text \<Rightarrow> 0)
      | Text \<Rightarrow> 0)"

fun insert_by :: "('a \<Rightarrow> 'a \<Rightarrow> rat) \<Rightarrow> 'a \<Rightarrow> 'a list \<Rightarrow> 'a list" where
  "insert_by cmp x [] = [x]"
| "insert_by cmp x (y # ys) = (if cmp x y \<le> 0 then x # y # ys else y # insert_by cmp x ys)"

definition sort_by :: "('a \<Rightarrow> 'a \<Rightarrow> rat) \<Rightarrow> 'a list \<Rightarrow> 'a list" where
  "sort_by cmp xs = foldr (insert_by cmp) xs []"

definition totalSpent :: "expense list \<Rightarrow> rat" where
  "totalSpent es = total_of es"

definition categoryData :: "expense list \<Rightarrow> summary_entry list" where
  "categoryData es = sort_by compare_totals (data_of (total_of es) (totals_of es))"

text \<open>
  \<open>item.percentage.toFixed(1)\<close>, the form in which a percentage is displayed: the integer
  \<open>n\<close> for which \<open>n / 10\<close> is closest to the number (the larger one on a tie), written with
  one fractional digit. From \<open>10^21\<close> on \<open>toFixed\<close> switches to the exponent notation, which
  is not described: \<open>None\<close>. \<open>NaN\<close> is displayed as \<open>NaN\<close>.
\<close>

fun digits_of :: "nat \<Rightarrow> string" where
  "digits_of n = (if n < 10 then [''0123456789'' ! n]
                  else digits_of (n div 10) @ [''0123456789'' ! (n mod 10)])"

definition toFixed1 :: "rat \<Rightarrow> string option" where
  "toFixed1 x =
     (let a = \<bar>x\<bar>; n = nat \<lfloor>a * 10 + 1 / 2\<rfloor> in
      if a \<ge> 10 ^ 21 then None
      else Some ((if x < 0 then ''-'' else '''') @ digits_of (n div 10) @ ''.''
                   @ digits_of (n mod 10)))"

definition display_percentage :: "rat option \<Rightarrow> string option" where
  "display_percentage p = (case p of None \<Rightarrow> Some ''NaN'' | Some x \<Rightarrow> toFixed1 x)"

subsection \<open>Strings of the form: \<open>trim\<close>, the amount filter and \<open>parseFloat\<close>\<close>

text \<open>
  The white space and line terminators that \<open>String.prototype.trim\<close> removes, in UTF-8:
  U+0009 to U+000D, U+0020, U+00A0, U+1680, U+2000 to U+200A, U+2028, U+2029, U+202F,
  U+205F, U+3000 and U+FEFF.
\<close>

definition white_space :: "string list" where
  "white_space =
     [[CHR 0x09], [CHR 0x0A], [CHR 0x0B], [CHR 0x0C], [CHR 0x0D], [CHR 0x20],
      [CHR 0xC2, CHR 0xA0],
      [CHR 0xE1, CHR 0x9A, CHR 0x80],
      [CHR 0xE2, CHR 0x80, CHR 0x80], [CHR 0xE2, CHR 0x80, CHR 0x81],
      [CHR 0xE2, CHR 0x80, CHR 0x82], [CHR 0xE2, CHR 0x80, CHR 0x83],
      [CHR 0xE2, CHR 0x80, CHR 0x84], [CHR 0xE2, CHR 0x80, CHR 0x85],
      [CHR 0xE2, CHR 0x80, CHR 0x86], [CHR 0xE2, CHR 0x80, CHR 0x87],
      [CHR 0xE2, CHR 0x80, CHR 0x88], [CHR 0xE2, CHR 0x80, CHR 0x89],
      [CHR 0xE2, CHR 0x80, CHR 0x8A],
      [CHR 0xE2, CHR 0x80, CHR 0xA8], [CHR 0xE2, CHR 0x80, CHR 0xA9],
      [CHR 0xE2, CHR 0x80, CHR 0xAF],
      [CHR 0xE2, CHR 0x81, CHR 0x9F],
      [CHR 0xE3, CHR 0x80, CHR 0x80],
      [CHR 0xEF, CHR 0xBB, CHR 0xBF]]"

text \<open>The white-space character a string starts with, if any.\<close>

definition leading :: "string list \<Rightarrow> string \<Rightarrow> string option" where
  "leading ws s = find (\<lambda>w. w \<noteq> [] \<and> take (length w) s = w) ws"

function strip :: "string list \<Rightarrow> string \<Rightarrow> string" where
  "strip ws s = (case leading ws s of None \<Rightarrow> s | Some w \<Rightarrow> strip ws (drop (length w) s))"
  by pat_completeness auto
termination
proof (relation "measure (\<lambda>(ws, s). length s)")
  show "wf (measure (\<lambda>(ws, s). length s))" by simp
next
  fix ws :: "string list" and s w :: string
  assume "leading ws s = Some w"
  then have w: "w \<noteq> []" "take (length w) s = w"
    by (auto simp: leading_def find_Some_iff)
  then have "s \<noteq> []" by auto
  with w show "((ws, drop (length w) s), (ws, s)) \<in> measure (\<lambda>(ws, s). length s)"
    by simp
qed

definition trim :: "string \<Rightarrow> string" where
  "trim s = rev (strip (map rev white_space) (rev (strip white_space s)))"

text \<open>\<open>amount.replace(/[^0-9.]/g, '')\<close>\<close>

definition keep_numeric :: "string \<Rightarrow> string" where
  "keep_numeric s = filter (\<lambda>c. is_digit c \<or> c = CHR ''.'') s"

text \<open>
  \<open>parseFloat\<close> on a string of digits and dots (the only strings \<open>handleSubmit\<close> passes, so
  that the sign, exponent, \<open>Infinity\<close> and leading white space of the general grammar cannot
  occur): the longest prefix of the form \<open>digits\<close>, \<open>digits.digits\<close>, \<open>digits.\<close> or
  \<open>.digits\<close> is read; \<open>None\<close> is \<open>NaN\<close>.
\<close>

definition parseFloat :: "string \<Rightarrow> rat option" where
  "parseFloat s =
     (let ip = takeWhile is_digit s; r = dropWhile is_digit s in
      case r of
        [] \<Rightarrow> if ip = [] then None else Some (of_int (decimal ip))
      | c # r' \<Rightarrow>
          if c = CHR ''.'' then
            (let fp = takeWhile is_digit r' in
             if ip = [] \<and> fp = [] then None
             else Some (of_int (decimal ip) + of_int (decimal fp) / 10 ^ length fp))
          else if ip = [] then None else Some (of_int (decimal ip)))"

subsection \<open>Component state, document store and remote calls\<close>

text \<open>
  The messages passed to \<open>setError\<close> by these handlers, one constructor for each literal of
  the source (quoted here without accents).
\<close>

datatype ui_error =
    InvalidInput    \<comment> \<open>"Por favor, introduce un monto valido y una descripcion."\<close>
  | NotReady        \<comment> \<open>"La aplicacion no esta lista aun. ..."\<close>
  | SubmitFailed    \<comment> \<open>"Error al procesar el gasto. Intenta nuevamente."\<close>
  | ArchiveFailed   \<comment> \<open>"Error al archivar/reiniciar. ..."\<close>

text \<open>
  The state variables of \<open>App\<close> that the handlers read or set. \<open>amountInput\<close> and
  \<open>descriptionInput\<close> are the variables \<open>amount\<close> and \<open>description\<close> of the form (renamed:
  the document fields have these names); \<open>db\<close> tells whether the Firestore handle is set.
\<close>

record app_state =
  db :: bool
  userId :: "string option"
  expenses :: "expense list"
  amountInput :: string
  descriptionInput :: string
  isLoading :: bool
  error :: "ui_error option"
  isArchiving :: bool
  isEditing :: bool
  editingExpenseId :: "string option"
  editingOriginalDescription :: string

text \<open>\<open>!db || !userId\<close>: \<open>null\<close> and the empty string are falsy.\<close>

definition not_ready :: "app_state \<Rightarrow> bool" where
  "not_ready s \<longleftrightarrow> \<not> db s \<or> userId s = None \<or> userId s = Some []"

record archive_record =
  title :: string
  archive_totalSpent :: rat
  categorySummary :: "summary_entry list"
  archiveDate :: int
  totalExpensesCount :: nat

text \<open>
  The two collections of the signed-in user, \<open>.../expenses\<close> and \<open>.../history\<close>, each a
  list of documents with their identifiers.
\<close>

record backend =
  expensesCol :: "(string \<times> doc_data) list"
  historyCol :: "(string \<times> archive_record) list"

text \<open>The argument of \<open>updateDoc\<close>: amount and description, and the labels when reclassified.\<close>

record updated_fields =
  upd_amount :: rat
  upd_description :: string
  upd_labels :: "(string option \<times> string option) option"

text \<open>The calls a handler makes outside the component, in the order it makes them.\<close>

datatype call =
    Classify string                   \<comment> \<open>\<open>categorizeExpense(text)\<close>\<close>
  | HttpPost                          \<comment> \<open>\<open>fetch(url, options)\<close>\<close>
  | Sleep nat                         \<comment> \<open>\<open>setTimeout(res, delay)\<close>\<close>
  | UpdateDoc string updated_fields   \<comment> \<open>\<open>updateDoc(expenseRef, updatedFields)\<close>\<close>
  | AddExpense doc_data               \<comment> \<open>\<open>addDoc\<close> on the expenses collection\<close>
  | AddHistory archive_record         \<comment> \<open>\<open>addDoc\<close> on the history collection\<close>
  | GetDocs                           \<comment> \<open>\<open>getDocs(q)\<close>\<close>
  | DeleteDoc string                  \<comment> \<open>\<open>deleteDoc(doc.ref)\<close>\<close>

subsection \<open>The snapshot listener of the expenses collection\<close>

text \<open>
  \<open>{id: doc.id, ...doc.data(), category: doc.data().category || 'No Categorizado',
  date: doc.data().timestamp?.toDate() || new Date()}\<close>, then
  \<open>fetchedExpenses.sort((a, b) => b.date - a.date)\<close>; \<open>t\<close> is the time of the callback.
\<close>

definition to_expense :: "int \<Rightarrow> string \<times> doc_data \<Rightarrow> expense" where
  "to_expense t p =
     \<lparr> amount = amount (snd p), description = description (snd p),
       category = Some (case category (snd p) of
                          None \<Rightarrow> ''No Categorizado''
                        | Some c \<Rightarrow> if c = [] then ''No Categorizado'' else c),
       classification = classification (snd p), timestamp = timestamp (snd p),
       expense_id = fst p,
       date = (case timestamp (snd p) of None \<Rightarrow> t | Some d \<Rightarrow> d) \<rparr>"

definition onSnapshot_expenses :: "int \<Rightarrow> (string \<times> doc_data) list \<Rightarrow> expense list" where
  "onSnapshot_expenses t docs = sort_key (\<lambda>e. - date e) (map (to_expense t) docs)"

subsection \<open>\<open>fetchWithBackoff\<close> and \<open>categorizeExpense\<close>\<close>

text \<open>
  What one exchange with the classification service comes to, as far as the code
  distinguishes: \<open>fetch\<close> rejects; the response is not \<open>ok\<close>; \<open>response.json()\<close> rejects; or
  it resolves to a \<open>result\<close>, of which \<open>categorizeExpense\<close> reads
  \<open>result.candidates?.[0]?.content?.parts?.[0]?.text\<close> and parses it.
\<close>

datatype payload =
    ResultNull      \<comment> \<open>\<open>result\<close> is \<open>null\<close>: reading \<open>result.candidates\<close> throws\<close>
  | NoText          \<comment> \<open>the text is missing or empty: the explicit \<open>throw\<close>\<close>
  | TextNotJson     \<comment> \<open>\<open>JSON.parse(jsonText)\<close> throws\<close>
  | ParsedNull      \<comment> \<open>\<open>JSON.parse(jsonText)\<close> returns \<open>null\<close>\<close>
  | Parsed "string option" "string option"
                    \<comment> \<open>it returns a value with these \<open>category\<close> and \<open>classification\<close>\<close>

datatype exchange = FetchRejected | StatusNotOk | BodyNotJson | Result payload

datatype fetch_error = TransportError | HttpError | JsonError

definition outcome :: "exchange \<Rightarrow> fetch_error + payload" where
  "outcome x = (case x of
                  FetchRejected \<Rightarrow> Inl TransportError
                | StatusNotOk \<Rightarrow> Inl HttpError
                | BodyNotJson \<Rightarrow> Inl JsonError
                | Result r \<Rightarrow> Inr r)"

text \<open>
  \<open>net k\<close> is the outcome of the \<open>k\<close>-th exchange. An attempt that fails is retried after
  \<open>delay\<close>, with one retry less and the delay doubled, as long as \<open>retries > 0\<close>.
\<close>

fun fetchWithBackoff ::
  "(nat \<Rightarrow> exchange) \<Rightarrow> nat \<Rightarrow> nat \<Rightarrow> nat \<Rightarrow> (fetch_error + payload) \<times> call list" where
  "fetchWithBackoff net k retries delay =
     (case outcome (net k) of
        Inr r \<Rightarrow> (Inr r, [HttpPost])
      | Inl e \<Rightarrow>
          if retries > 0
          then (let (res, tr) = fetchWithBackoff net (k + 1) (retries - 1) (delay * 2)
                in (res, HttpPost # Sleep delay # tr))
          else (Inl e, [HttpPost]))"

text \<open>What \<open>categorizeExpense\<close> returns: \<open>null\<close>, or a value with the two fields read later.\<close>

datatype classified = NullValue | Fields "string option" "string option"

definition fallback :: classified where
  "fallback = Fields (Some ''No Categorizado'') (Some ''Manual'')"

definition categorizeExpense :: "(nat \<Rightarrow> exchange) \<Rightarrow> string \<Rightarrow> classified \<times> call list" where
  "categorizeExpense net text =
     (case fetchWithBackoff net 0 3 1000 of
        (Inl e, tr) \<Rightarrow> (fallback, Classify text # tr)
      | (Inr ResultNull, tr) \<Rightarrow> (fallback, Classify text # tr)
      | (Inr NoText, tr) \<Rightarrow> (fallback, Classify text # tr)
      | (Inr TextNotJson, tr) \<Rightarrow> (fallback, Classify text # tr)
      | (Inr ParsedNull, tr) \<Rightarrow> (NullValue, Classify text # tr)
      | (Inr (Parsed c k), tr) \<Rightarrow> (Fields c k, Classify text # tr))"

subsection \<open>\<open>handleSubmit\<close>\<close>

text \<open>
  What the handler cannot decide itself: the outcomes of the exchanges with the
  classification service, the time, the identifier the store gives a new document, and
  whether the store accepts the write.
\<close>

record submit_env =
  net :: "nat \<Rightarrow> exchange"
  now :: int
  new_id :: string
  write_ok :: bool

text \<open>The \<open>catch\<close> block followed by \<open>finally\<close>.\<close>

definition submit_failed :: "app_state \<Rightarrow> app_state" where
  "submit_failed s = s\<lparr> error := Some SubmitFailed, isLoading := False \<rparr>"

definition handleCancelEdit :: "app_state \<Rightarrow> app_state" where
  "handleCancelEdit s =
     s\<lparr> isEditing := False, editingExpenseId := None, amountInput := [],
        descriptionInput := [], editingOriginalDescription := [], error := None \<rparr>"

text \<open>\<open>updateDoc\<close> merges the given fields into the document; it fails on a missing document.\<close>

definition merge_fields :: "updated_fields \<Rightarrow> doc_data \<Rightarrow> doc_data" where
  "merge_fields f d =
     (case upd_labels f of
        None \<Rightarrow> d\<lparr> amount := upd_amount f, description := upd_description f \<rparr>
      | Some (c, k) \<Rightarrow> d\<lparr> amount := upd_amount f, description := upd_description f,
                           category := c, classification := k \<rparr>)"

definition updateDoc :: "bool \<Rightarrow> string \<Rightarrow> updated_fields \<Rightarrow> backend \<Rightarrow> backend option" where
  "updateDoc accepted i f b =
     (if accepted \<and> i \<in> fst ` set (expensesCol b)
      then Some (b\<lparr> expensesCol :=
                       map (\<lambda>p. if fst p = i then (fst p, merge_fields f (snd p)) else p)
                           (expensesCol b) \<rparr>)
      else None)"

definition write_update ::
  "submit_env \<Rightarrow> app_state \<Rightarrow> backend \<Rightarrow> string \<Rightarrow> updated_fields \<Rightarrow> call list
     \<Rightarrow> app_state \<times> backend \<times> call list" where
  "write_update env s b docId upd tr =
     (case updateDoc (write_ok env) docId upd b of
        None \<Rightarrow> (submit_failed s, b, tr @ [UpdateDoc docId upd])
      | Some b' \<Rightarrow> ((handleCancelEdit s)\<lparr> isLoading := False \<rparr>, b', tr @ [UpdateDoc docId upd]))"

text \<open>
  The identifier of the document being edited, as it is interpolated into the document
  path, where \<open>null\<close> reads \<open>"null"\<close>.
\<close>

definition editingDocId :: "app_state \<Rightarrow> string" where
  "editingDocId s = (case editingExpenseId s of None \<Rightarrow> ''null'' | Some i \<Rightarrow> i)"

text \<open>
  The branch \<open>if (isEditing)\<close>. Destructuring \<open>null\<close> throws, which the \<open>catch\<close> block
  receives.
\<close>

definition submit_edit ::
  "submit_env \<Rightarrow> app_state \<Rightarrow> backend \<Rightarrow> rat \<Rightarrow> app_state \<times> backend \<times> call list" where
  "submit_edit env s b numericAmount =
     (let updatedFields = \<lparr> upd_amount = numericAmount,
                            upd_description = trim (descriptionInput s),
                            upd_labels = None \<rparr>
      in if trim (descriptionInput s) \<noteq> editingOriginalDescription s
         then (case categorizeExpense (net env) (descriptionInput s) of
                 (NullValue, tr) \<Rightarrow> (submit_failed s, b, tr)
               | (Fields c k, tr) \<Rightarrow>
                   write_update env s b (editingDocId s)
                     (updatedFields\<lparr> upd_labels := Some (c, k) \<rparr>) tr)
         else write_update env s b (editingDocId s) updatedFields [])"

text \<open>The branch \<open>else\<close>: classify, then \<open>addDoc\<close>.\<close>

definition submit_add ::
  "submit_env \<Rightarrow> app_state \<Rightarrow> backend \<Rightarrow> rat \<Rightarrow> app_state \<times> backend \<times> call list" where
  "submit_add env s b numericAmount =
     (case categorizeExpense (net env) (descriptionInput s) of
        (NullValue, tr) \<Rightarrow> (submit_failed s, b, tr)
      | (Fields c k, tr) \<Rightarrow>
          (let newExpense = \<lparr> amount = numericAmount,
                              description = trim (descriptionInput s),
                              category = c, classification = k,
                              timestamp = Some (now env) \<rparr>
           in if write_ok env
              then (s\<lparr> amountInput := [], descriptionInput := [], error := None,
                       isLoading := False \<rparr>,
                    b\<lparr> expensesCol := expensesCol b @ [(new_id env, newExpense)] \<rparr>,
                    tr @ [AddExpense newExpense])
              else (submit_failed s, b, tr @ [AddExpense newExpense])))"

text \<open>
  The two guards at the head of the handler, which return before any call is made:
  \<open>!numericAmount || numericAmount <= 0 || !description.trim()\<close> (\<open>NaN\<close> and \<open>0\<close> are the
  falsy numbers, the empty string is the falsy string), then \<open>!db || !userId\<close>. The
  result is the message set, or the amount parsed.
\<close>

definition validate :: "app_state \<Rightarrow> ui_error + rat" where
  "validate s =
     (case parseFloat (keep_numeric (amountInput s)) of
        None \<Rightarrow> Inl InvalidInput
      | Some numericAmount \<Rightarrow>
          if numericAmount = 0 \<or> numericAmount \<le> 0 \<or> trim (descriptionInput s) = []
          then Inl InvalidInput
          else if not_ready s then Inl NotReady
          else Inr numericAmount)"

text \<open>The result is the new state, the store and the calls made.\<close>

definition handleSubmit ::
  "submit_env \<Rightarrow> app_state \<Rightarrow> backend \<Rightarrow> app_state \<times> backend \<times> call list" where
  "handleSubmit env s b =
     (case validate s of
        Inl e \<Rightarrow> (s\<lparr> error := Some e \<rparr>, b, [])
      | Inr numericAmount \<Rightarrow>
          if isEditing s then submit_edit env s b numericAmount
          else submit_add env s b numericAmount)"

subsection \<open>\<open>handleResetAndArchive\<close>\<close>

text \<open>
  What the handler cannot decide itself: the answer to \<open>window.confirm\<close>, the month label
  and the time, the outcome of the write to the history collection and of \<open>getDocs\<close>, and for
  the delete of each document whether it succeeds and when it settles (in time units after
  the batch is issued).
\<close>

record archive_env =
  confirm :: bool
  currentMonth :: string
  archive_now :: int
  history_id :: string
  history_ok :: bool
  getDocs_ok :: bool
  delete_ok :: "string \<Rightarrow> bool"
  delete_time :: "string \<Rightarrow> nat"

definition archiveData :: "archive_env \<Rightarrow> app_state \<Rightarrow> archive_record" where
  "archiveData env s =
     \<lparr> title = ''Resumen de Gastos: '' @ currentMonth env,
       archive_totalSpent = totalSpent (expenses s),
       categorySummary =
         map (\<lambda>item. \<lparr> entry_category = entry_category item, total = total item,
                        percentage = percentage item \<rparr>)
             (categoryData (expenses s)),
       archiveDate = archive_now env,
       totalExpensesCount = length (expenses s) \<rparr>"

text \<open>
  \<open>Promise.all\<close> over promises given by their settling time and whether they fulfil: the
  combined promise rejects with the earliest rejection, and fulfils, when there is none,
  once the last promise has fulfilled (at once for no promise).
\<close>

definition promise_all :: "(nat \<times> bool) list \<Rightarrow> nat \<times> bool" where
  "promise_all ps =
     (case filter (\<lambda>p. \<not> snd p) ps of
        [] \<Rightarrow> (fold max (map fst ps) 0, True)
      | f # fs \<Rightarrow> (fold min (map fst fs) (fst f), False))"

text \<open>
  The outcome of a run: the state when the handler returns, the store once every delete
  that was issued has settled, the calls made, and the deletes that had not settled yet
  when the handler returned.
\<close>

record archive_run =
  app :: app_state
  store :: backend
  calls :: "call list"
  pending :: "string list"

definition archive_failed :: "app_state \<Rightarrow> app_state" where
  "archive_failed s = s\<lparr> error := Some ArchiveFailed, isArchiving := False \<rparr>"

definition handleResetAndArchive :: "archive_env \<Rightarrow> app_state \<Rightarrow> backend \<Rightarrow> archive_run" where
  "handleResetAndArchive env s b =
     (if not_ready s \<or> length (expenses s) = 0
      then \<lparr> app = s, store = b, calls = [], pending = [] \<rparr>
      else if \<not> confirm env
      then \<lparr> app = s, store = b, calls = [], pending = [] \<rparr>
      else if \<not> history_ok env
      then \<lparr> app = archive_failed s, store = b, calls = [AddHistory (archiveData env s)],
             pending = [] \<rparr>
      else
        (let b1 = b\<lparr> historyCol := historyCol b @ [(history_id env, archiveData env s)] \<rparr>
         in if \<not> getDocs_ok env
            then \<lparr> app = archive_failed s, store = b1,
                   calls = [AddHistory (archiveData env s), GetDocs], pending = [] \<rparr>
            else
              (let ids = map fst (expensesCol b1);
                   (t, fulfilled) =
                      promise_all (map (\<lambda>i. (delete_time env i, delete_ok env i)) ids)
               in \<lparr> app = (if fulfilled
                            then s\<lparr> error := None, isArchiving := False \<rparr>
                            else archive_failed s),
                     store = b1\<lparr> expensesCol :=
                                   filter (\<lambda>p. \<not> delete_ok env (fst p)) (expensesCol b1) \<rparr>,
                     calls = [AddHistory (archiveData env s), GetDocs] @ map DeleteDoc ids,
                     pending = filter (\<lambda>i. t < delete_time env i) ids \<rparr>)))"

subsection \<open>Reference quantities for the statements\<close>

text \<open>The sum of the amounts of the expenses that count under the label \<open>k\<close>.\<close>

definition category_sum :: "expense list \<Rightarrow> string \<Rightarrow> rat" where
  "category_sum es k = sum_list (map amount (filter (\<lambda>e. label e = k) es))"

text \<open>
  The number an accumulated value stands for, the lists whose labels name no inherited
  member of \<open>Object.prototype\<close>, and descending order of the totals as numbers.
\<close>

definition num_of :: "jsval \<Rightarrow> rat" where
  "num_of v = (case v of Number x \<Rightarrow> x | Text \<Rightarrow> 0)"

definition plain_labels :: "expense list \<Rightarrow> bool" where
  "plain_labels es \<longleftrightarrow> list_all (\<lambda>e. \<not> inherited_member (label e)) es"

definition at_least :: "jsval \<Rightarrow> jsval \<Rightarrow> bool" where
  "at_least v w =
     (case v of
        Number x \<Rightarrow> (case w of Number y \<Rightarrow> y \<le> x | Text \<Rightarrow> False)
      | Text \<Rightarrow> False)"

definition descending :: "summary_entry list \<Rightarrow> bool" where
  "descending ds = sorted_wrt (\<lambda>a b. at_least (total a) (total b)) ds"

text \<open>An accumulator that holds numbers only, and the number it holds under a key.\<close>

definition numeric :: "jsval obj \<Rightarrow> bool" where
  "numeric ob \<longleftrightarrow> list_all (\<lambda>p. snd p \<noteq> Text) ob"

definition held :: "jsval obj \<Rightarrow> string \<Rightarrow> rat" where
  "held ob k = (case map_of ob k of None \<Rightarrow> 0 | Some v \<Rightarrow> num_of v)"

text \<open>Readings of a list of calls.\<close>

fun is_classify :: "call \<Rightarrow> bool" where
  "is_classify (Classify t) = True"
| "is_classify c = False"

definition classify_calls :: "call list \<Rightarrow> nat" where
  "classify_calls tr = length (filter is_classify tr)"

text \<open>The writes to the expenses collection, and the amount each carries.\<close>

fun is_write :: "call \<Rightarrow> bool" where
  "is_write (UpdateDoc i f) = True"
| "is_write (AddExpense d) = True"
| "is_write c = False"

definition writes :: "call list \<Rightarrow> call list" where
  "writes tr = filter is_write tr"

fun written_amount :: "call \<Rightarrow> rat option" where
  "written_amount (UpdateDoc i f) = Some (upd_amount f)"
| "written_amount (AddExpense d) = Some (amount d)"
| "written_amount c = None"

text \<open>The description a write carries.\<close>

fun written_description :: "call \<Rightarrow> string option" where
  "written_description (UpdateDoc i f) = Some (upd_description f)"
| "written_description (AddExpense d) = Some (description d)"
| "written_description c = None"

fun is_delete :: "call \<Rightarrow> bool" where
  "is_delete (DeleteDoc i) = True"
| "is_delete c = False"

text \<open>
  The failures that \<open>categorizeExpense\<close> catches: the four exchanges that
  \<open>fetchWithBackoff\<close> allows (one attempt and three retries) all fail in transport
  (rejected \<open>fetch\<close>, status outside 2xx, unreadable body), or the first exchange that
  succeeds carries a \<open>null\<close> result, no text, or a text that is not JSON. A text that
  parses to \<open>null\<close>, or to a value without the two keys, is not among them.
\<close>

definition transport_failed :: "exchange \<Rightarrow> bool" where
  "transport_failed x \<longleftrightarrow> x = FetchRejected \<or> x = StatusNotOk \<or> x = BodyNotJson"

definition unusable :: "exchange \<Rightarrow> bool" where
  "unusable x \<longleftrightarrow> x = Result ResultNull \<or> x = Result NoText \<or> x = Result TextNotJson"

definition failure_caught :: "(nat \<Rightarrow> exchange) \<Rightarrow> bool" where
  "failure_caught svc \<longleftrightarrow>
     list_all (\<lambda>k. transport_failed (svc k)) [0..<4]
     \<or> list_ex (\<lambda>k. list_all (\<lambda>j. transport_failed (svc j)) [0..<k] \<and> unusable (svc k)) [0..<4]"

text \<open>The calls that \<open>fetchWithBackoff\<close> makes.\<close>

fun is_retry_io :: "call \<Rightarrow> bool" where
  "is_retry_io HttpPost = True"
| "is_retry_io (Sleep n) = True"
| "is_retry_io c = False"

text \<open>The document that a new submission of amount \<open>a\<close> writes under the fallback labels.\<close>

definition fallback_doc :: "submit_env \<Rightarrow> app_state \<Rightarrow> rat \<Rightarrow> doc_data" where
  "fallback_doc env s a =
     \<lparr> amount = a, description = trim (descriptionInput s),
       category = Some ''No Categorizado'', classification = Some ''Manual'',
       timestamp = Some (now env) \<rparr>"

text \<open>
  The identifiers of the documents that \<open>getDocs\<close> returns, and the time at which the
  earliest failing delete of a batch settles.
\<close>

definition snapshot_ids :: "backend \<Rightarrow> string list" where
  "snapshot_ids b = map fst (expensesCol b)"

definition earliest_failure :: "archive_env \<Rightarrow> string list \<Rightarrow> nat" where
  "earliest_failure env ids = Min (delete_time env ` {i \<in> set ids. \<not> delete_ok env i})"

text \<open>Sample data for the submissions: a form, two stores and a stored document.\<close>

definition sample_state :: app_state where
  "sample_state =
     \<lparr> db = True, userId = Some ''u1'', expenses = [], amountInput = ''-50'',
       descriptionInput = '' cafe con leche '', isLoading = False, error = None,
       isArchiving = False, isEditing = False, editingExpenseId = None,
       editingOriginalDescription = [] \<rparr>"

definition empty_backend :: backend where
  "empty_backend = \<lparr> expensesCol = [], historyCol = [] \<rparr>"

definition sample_doc :: doc_data where
  "sample_doc =
     \<lparr> amount = 120, description = ''cafe con leche'', category = Some ''Comida'',
       classification = Some ''Cafeteria'', timestamp = Some 1000 \<rparr>"

definition sample_backend :: backend where
  "sample_backend = \<lparr> expensesCol = [(''d1'', sample_doc)], historyCol = [] \<rparr>"

text \<open>
  Two classification services: one answers every exchange with a status outside 2xx; the
  other rejects the first two exchanges and answers well from the third on.
\<close>

definition net_down :: "nat \<Rightarrow> exchange" where
  "net_down k = StatusNotOk"

definition net_slow :: "nat \<Rightarrow> exchange" where
  "net_slow k = (if k < 2 then FetchRejected
                 else Result (Parsed (Some ''Transporte'') (Some ''Taxi'')))"

definition env_down :: submit_env where
  "env_down = \<lparr> net = net_down, now = 2000, new_id = ''d2'', write_ok = True \<rparr>"

definition env_slow :: submit_env where
  "env_slow = \<lparr> net = net_slow, now = 2000, new_id = ''d2'', write_ok = True \<rparr>"

text \<open>
  Two services that answer the first exchange with a payload that parses but is not the
  object asked for: the text \<open>null\<close>, and the text \<open>{}\<close>.
\<close>

definition net_null :: "nat \<Rightarrow> exchange" where
  "net_null k = Result ParsedNull"

definition net_empty_object :: "nat \<Rightarrow> exchange" where
  "net_empty_object k = Result (Parsed None None)"

definition env_null :: submit_env where
  "env_null = \<lparr> net = net_null, now = 2000, new_id = ''d2'', write_ok = True \<rparr>"

definition env_empty_object :: submit_env where
  "env_empty_object =
     \<lparr> net = net_empty_object, now = 2000, new_id = ''d2'', write_ok = True \<rparr>"

text \<open>The form in edit mode on the document \<open>d1\<close>, with a new amount and a given description.\<close>

definition editing_state :: "string \<Rightarrow> app_state" where
  "editing_state d =
     sample_state\<lparr> amountInput := ''150.5'', descriptionInput := d, isEditing := True,
                   editingExpenseId := Some ''d1'',
                   editingOriginalDescription := ''cafe con leche'' \<rparr>"

text \<open>Sample expenses for the aggregation.\<close>

definition mk_expense :: "string \<Rightarrow> rat \<Rightarrow> string option \<Rightarrow> expense" where
  "mk_expense i a c =
     \<lparr> amount = a, description = ''gasto'', category = c, classification = None,
       timestamp = None, expense_id = i, date = 0 \<rparr>"

definition sample_expenses :: "expense list" where
  "sample_expenses =
     [mk_expense ''e1'' 100 (Some ''Comida''), mk_expense ''e2'' 50 (Some ''Otros''),
      mk_expense ''e3'' 25 (Some ''Comida''), mk_expense ''e4'' 25 None,
      mk_expense ''e5'' 50 (Some [])]"

text \<open>
  Expenses whose category names a member inherited from \<open>Object.prototype\<close>: the accessor
  \<open>__proto__\<close>, and the function \<open>constructor\<close>.
\<close>

definition proto_expenses :: "expense list" where
  "proto_expenses =
     [mk_expense ''e1'' 100 (Some ''__proto__''), mk_expense ''e2'' 50 (Some ''Otros'')]"

definition constructor_expenses :: "expense list" where
  "constructor_expenses =
     [mk_expense ''e1'' 10 (Some ''A''), mk_expense ''e2'' 5 (Some ''constructor''),
      mk_expense ''e3'' 20 (Some ''B'')]"

definition constructor_pair :: "expense list" where
  "constructor_pair =
     [mk_expense ''e1'' 10 (Some ''A''), mk_expense ''e2'' 5 (Some ''constructor'')]"

text \<open>
  A store with two expenses, the state that mirrors it, and three runs of the archival: all
  goes well; the write to the history collection fails; the delete of \<open>d1\<close> fails after one
  time unit while the delete of \<open>d2\<close> settles after five.
\<close>

definition store2 :: backend where
  "store2 =
     \<lparr> expensesCol =
         [(''d1'', sample_doc),
          (''d2'', \<lparr> amount = 80, description = ''taxi'', category = None,
                     classification = Some ''Taxi'', timestamp = Some 3000 \<rparr>)],
       historyCol = [] \<rparr>"

definition state2 :: app_state where
  "state2 =
     sample_state\<lparr> expenses := onSnapshot_expenses 0 (expensesCol store2),
                   amountInput := [], descriptionInput := [] \<rparr>"

definition archive_ok :: archive_env where
  "archive_ok =
     \<lparr> confirm = True, currentMonth = ''noviembre de 2026'', archive_now = 5000,
       history_id = ''h1'', history_ok = True, getDocs_ok = True,
       delete_ok = (\<lambda>i. True), delete_time = (\<lambda>i. if i = ''d1'' then 1 else 5) \<rparr>"

definition archive_history_down :: archive_env where
  "archive_history_down = archive_ok\<lparr> history_ok := False \<rparr>"

definition archive_delete_fails :: archive_env where
  "archive_delete_fails = archive_ok\<lparr> delete_ok := (\<lambda>i. i \<noteq> ''d1'') \<rparr>"

section \<open>Properties\<close>

declare fetchWithBackoff.simps [simp del]

declare strip.simps [simp del]

declare digits_of.simps [simp del]

subsection \<open>The accumulator of the reduction\<close>

text \<open>
  On expenses whose labels name no inherited member, every step of the reduction writes a
  number: the accumulator then has one key per label and holds under it the sum of the
  amounts of that label.
\<close>

lemma num_of_simps [simp]: "num_of (Number x) = x" "num_of Text = 0"
  by (simp_all add: num_of_def)

lemma not_Text_iff: "v \<noteq> Text \<longleftrightarrow> v = Number (num_of v)"
  by (cases v) simp_all

lemma map_of_obj_set: "map_of (obj_set ob k v) = (map_of ob)(k \<mapsto> v)"
  by (induction ob) (auto simp: fun_eq_iff)

lemma keys_obj_set:
  "map fst (obj_set ob k v) = (if k \<in> fst ` set ob then map fst ob else map fst ob @ [k])"
  by (induction ob) force+

lemma sum_obj_set:
  "sum_list (map (\<lambda>p. num_of (snd p)) (obj_set ob k v))
     = sum_list (map (\<lambda>p. num_of (snd p)) ob) - held ob k + num_of v"
  by (induction ob) (auto simp: held_def)

lemma numeric_obj_set: "numeric ob \<Longrightarrow> numeric (obj_set ob k (Number x))"
  by (induction ob) (auto simp: numeric_def)

lemma numeric_map_of: "numeric ob \<Longrightarrow> map_of ob k = Some v \<Longrightarrow> v = Number (num_of v)"
  by (induction ob) (auto simp: numeric_def not_Text_iff split: if_splits)

lemma plain_step:
  assumes "\<not> inherited_member (label e)" and "numeric acc"
  shows "totals_step acc e
           = obj_set acc (label e) (Number (held acc (label e) + amount e))"
proof -
  from assms(1) have p: "label e \<noteq> ''__proto__''" by (auto simp: inherited_member_def)
  show ?thesis
  proof (cases "map_of acc (label e)")
    case None
    with assms(1) p show ?thesis
      by (simp add: totals_step_def Let_def obj_get_def obj_assign_def accumulate_def held_def)
  next
    case (Some v)
    with assms(2) have "v = Number (num_of v)" by (rule numeric_map_of)
    then obtain x where "v = Number x" ..
    with Some p show ?thesis
      by (simp add: totals_step_def Let_def obj_get_def obj_assign_def accumulate_def held_def)
  qed
qed

lemma total_of_acc: "foldl (\<lambda>sum e. sum + amount e) a es = a + sum_list (map amount es)"
  by (induction es arbitrary: a) (auto simp: algebra_simps)

lemma total_of_sum: "total_of es = sum_list (map amount es)"
  by (simp add: total_of_def total_of_acc)

lemma plain_fold:
  assumes "plain_labels es" and "numeric acc"
  shows "numeric (foldl totals_step acc es)"
    and "sum_list (map (\<lambda>p. num_of (snd p)) (foldl totals_step acc es))
           = sum_list (map (\<lambda>p. num_of (snd p)) acc) + sum_list (map amount es)"
    and "distinct (map fst acc) \<Longrightarrow> distinct (map fst (foldl totals_step acc es))"
    and "fst ` set (foldl totals_step acc es) = fst ` set acc \<union> label ` set es"
    and "held (foldl totals_step acc es) k = held acc k + category_sum es k"
  using assms
proof (induction es arbitrary: acc)
  case Nil
  {
    case 1 then show ?case by simp
  next
    case 2 then show ?case by simp
  next
    case 3 then show ?case by simp
  next
    case 4 then show ?case by simp
  next
    case 5 then show ?case by (simp add: category_sum_def)
  }
next
  case (Cons e es)
  {
    case 1
    then have st: "totals_step acc e
        = obj_set acc (label e) (Number (held acc (label e) + amount e))"
      by (simp add: plain_step plain_labels_def)
    from 1 have n: "numeric (totals_step acc e)" unfolding st by (simp add: numeric_obj_set)
    from 1 have p: "plain_labels es" by (simp add: plain_labels_def)
    show ?case using Cons.IH(1) [OF p n] by simp
  next
    case 2
    then have st: "totals_step acc e
        = obj_set acc (label e) (Number (held acc (label e) + amount e))"
      by (simp add: plain_step plain_labels_def)
    from 2 have n: "numeric (totals_step acc e)" unfolding st by (simp add: numeric_obj_set)
    from 2 have p: "plain_labels es" by (simp add: plain_labels_def)
    show ?case using Cons.IH(2) [OF p n] by (simp add: st sum_obj_set algebra_simps)
  next
    case 3
    then have st: "totals_step acc e
        = obj_set acc (label e) (Number (held acc (label e) + amount e))"
      by (simp add: plain_step plain_labels_def)
    from 3 have n: "numeric (totals_step acc e)" unfolding st by (simp add: numeric_obj_set)
    from 3 have p: "plain_labels es" by (simp add: plain_labels_def)
    from 3(1) have d: "distinct (map fst (totals_step acc e))"
      unfolding st by (simp add: keys_obj_set)
    show ?case using Cons.IH(3) [OF d p n] by simp
  next
    case 4
    then have st: "totals_step acc e
        = obj_set acc (label e) (Number (held acc (label e) + amount e))"
      by (simp add: plain_step plain_labels_def)
    from 4 have n: "numeric (totals_step acc e)" unfolding st by (simp add: numeric_obj_set)
    from 4 have p: "plain_labels es" by (simp add: plain_labels_def)
    have "set (map fst (totals_step acc e)) = insert (label e) (fst ` set acc)"
      unfolding st keys_obj_set by auto
    then have k: "fst ` set (totals_step acc e) = insert (label e) (fst ` set acc)" by simp
    show ?case using Cons.IH(4) [OF p n] by (simp add: k)
  next
    case 5
    then have st: "totals_step acc e
        = obj_set acc (label e) (Number (held acc (label e) + amount e))"
      by (simp add: plain_step plain_labels_def)
    from 5 have n: "numeric (totals_step acc e)" unfolding st by (simp add: numeric_obj_set)
    from 5 have p: "plain_labels es" by (simp add: plain_labels_def)
    have h: "held (totals_step acc e) k
        = held acc k + (if label e = k then amount e else 0)"
      unfolding st by (simp add: held_def map_of_obj_set)
    show ?case using Cons.IH(5) [OF p n] by (simp add: h category_sum_def)
  }
qed


lemma plain_totals_of:
  assumes "plain_labels es"
  shows "numeric (totals_of es)"
    and "sum_list (map (\<lambda>p. num_of (snd p)) (totals_of es)) = total_of es"
    and "distinct (map fst (totals_of es))"
    and "fst ` set (totals_of es) = label ` set es"
    and "held (totals_of es) k = category_sum es k"
proof -
  have n: "numeric []" by (simp add: numeric_def)
  show "numeric (totals_of es)"
    unfolding totals_of_def by (rule plain_fold(1) [OF assms n])
  show "sum_list (map (\<lambda>p. num_of (snd p)) (totals_of es)) = total_of es"
    unfolding totals_of_def using plain_fold(2) [OF assms n] by (simp add: total_of_sum)
  show "distinct (map fst (totals_of es))"
    unfolding totals_of_def using plain_fold(3) [OF assms n] by simp
  show "fst ` set (totals_of es) = label ` set es"
    unfolding totals_of_def using plain_fold(4) [OF assms n] by simp
  show "held (totals_of es) k = category_sum es k"
    unfolding totals_of_def using plain_fold(5) [OF assms n, of k] by (simp add: held_def)
qed

subsection \<open>Keys, entries and their order\<close>

lemma mset_object_keys: "mset (object_keys ob) = mset (map fst ob)"
  by (simp add: object_keys_def)

lemma set_object_keys: "set (object_keys ob) = fst ` set ob"
proof -
  have "set (object_keys ob) = set_mset (mset (object_keys ob))" by simp
  also have "\<dots> = fst ` set ob" unfolding mset_object_keys by simp
  finally show ?thesis .
qed

lemma distinct_object_keys: "distinct (object_keys ob) = distinct (map fst ob)"
  using mset_object_keys [of ob] by (metis mset_eq_imp_distinct_iff)

lemma obj_get_object_keys:
  "k \<in> set (object_keys ob) \<Longrightarrow> \<exists>v. obj_get ob k = Own v"
  by (auto simp: set_object_keys obj_get_def split: option.splits
      dest: weak_map_of_SomeI)

lemma own_value_held:
  assumes "numeric ob" and "k \<in> fst ` set ob"
  shows "own_value (obj_get ob k) = Number (held ob k)"
proof -
  from assms(2) obtain v where v: "map_of ob k = Some v"
    by (metis not_None_eq map_of_eq_None_iff)
  with assms(1) have "v = Number (num_of v)" by (rule numeric_map_of)
  with v show ?thesis by (simp add: obj_get_def own_value_def held_def)
qed

lemma sum_list_mset_cong:
  fixes f :: "'a \<Rightarrow> rat"
  shows "mset xs = mset ys \<Longrightarrow> sum_list (map f xs) = sum_list (map f ys)"
  by (metis mset_map sum_mset_sum_list)

lemma sum_held_keys:
  assumes "distinct (map fst ob)"
  shows "sum_list (map (\<lambda>p. held ob (fst p)) ob) = sum_list (map (\<lambda>p. num_of (snd p)) ob)"
proof -
  have "map (\<lambda>p. held ob (fst p)) ob = map (\<lambda>p. num_of (snd p)) ob"
    using assms by (intro map_cong) (auto simp: held_def)
  then show ?thesis by (rule arg_cong [where f = sum_list])
qed

text \<open>The entries built from an accumulator that holds numbers only.\<close>

lemma categories_data_of: "map entry_category (data_of t ob) = object_keys ob"
  by (simp add: data_of_def comp_def)

lemma total_data_of:
  assumes "numeric ob" and "d \<in> set (data_of t ob)"
  shows "total d = Number (held ob (entry_category d))"
  using assms by (auto simp: data_of_def set_object_keys own_value_held)

lemma percentage_data_of:
  assumes "numeric ob" and "d \<in> set (data_of t ob)"
  shows "percentage d
           = Some (if t > 0 then held ob (entry_category d) / t * 100 else 0)"
proof -
  from assms(2) obtain k where k: "k \<in> fst ` set ob"
    and d: "d = \<lparr> entry_category = k, total = own_value (obj_get ob k),
                  percentage = (if t > 0 then percent_of (own_value (obj_get ob k)) t
                                else Some 0) \<rparr>"
    by (auto simp: data_of_def set_object_keys)
  have "own_value (obj_get ob k) = Number (held ob k)"
    using assms(1) k by (rule own_value_held)
  then show ?thesis by (simp add: d percent_of_def)
qed

lemma sum_total_data_of:
  assumes "numeric ob" and "distinct (map fst ob)"
  shows "sum_list (map (\<lambda>d. num_of (total d)) (data_of t ob))
           = sum_list (map (\<lambda>p. num_of (snd p)) ob)"
proof -
  have "map (\<lambda>d. num_of (total d)) (data_of t ob) = map (\<lambda>d. held ob (entry_category d)) (data_of t ob)"
    using assms(1) by (intro map_cong) (auto simp: total_data_of)
  also have "\<dots> = map (held ob) (object_keys ob)"
    by (simp only: categories_data_of [symmetric, of ob t] map_map comp_def)
  finally have "sum_list (map (\<lambda>d. num_of (total d)) (data_of t ob))
      = sum_list (map (held ob) (object_keys ob))" by simp
  also have "\<dots> = sum_list (map (held ob) (map fst ob))"
    by (rule sum_list_mset_cong [OF mset_object_keys])
  also have "\<dots> = sum_list (map (\<lambda>p. held ob (fst p)) ob)" by (simp add: comp_def)
  finally show ?thesis using assms(2) by (simp add: sum_held_keys)
qed

text \<open>The sort.\<close>

lemma mset_insert_by: "mset (insert_by cmp x ys) = add_mset x (mset ys)"
  by (induction ys) auto

lemma mset_sort_by: "mset (sort_by cmp xs) = mset xs"
  unfolding sort_by_def by (induction xs) (auto simp: mset_insert_by)

lemma set_sort_by: "set (sort_by cmp xs) = set xs"
  using mset_sort_by [of cmp xs] by (rule mset_eq_setD)

lemma insert_by_numeric:
  assumes "\<forall>d\<in>set (x # ys). total d \<noteq> Text"
  shows "insert_by compare_totals x ys = insort_key (\<lambda>d. - num_of (total d)) x ys"
  using assms
proof (induction ys)
  case Nil
  then show ?case by simp
next
  case (Cons y ys)
  from Cons.prems obtain a b where "total x = Number a" "total y = Number b"
    by (auto simp: not_Text_iff)
  then have c: "compare_totals x y \<le> 0 \<longleftrightarrow> - num_of (total x) \<le> - num_of (total y)"
    by (simp add: compare_totals_def)
  from Cons show ?case by (simp add: c)
qed

lemma sort_by_numeric:
  assumes "\<forall>d\<in>set xs. total d \<noteq> Text"
  shows "sort_by compare_totals xs = sort_key (\<lambda>d. - num_of (total d)) xs"
  using assms
proof (induction xs)
  case Nil
  then show ?case by (simp add: sort_by_def)
next
  case (Cons x xs)
  then have ih: "sort_by compare_totals xs = sort_key (\<lambda>d. - num_of (total d)) xs" by simp
  have "sort_by compare_totals (x # xs) = insert_by compare_totals x (sort_by compare_totals xs)"
    by (simp add: sort_by_def)
  also have "\<dots> = insort_key (\<lambda>d. - num_of (total d)) x (sort_by compare_totals xs)"
    using Cons.prems by (intro insert_by_numeric) (simp add: set_sort_by)
  finally show ?case by (simp add: ih)
qed

lemma descending_numeric:
  assumes "\<forall>d\<in>set xs. total d \<noteq> Text"
  shows "descending (sort_by compare_totals xs)"
proof -
  let ?ys = "sort_key (\<lambda>d. - num_of (total d)) xs"
  have "sorted (map (\<lambda>d. - num_of (total d)) ?ys)" by (rule sorted_sort_key)
  then have s: "sorted_wrt (\<lambda>a b. num_of (total b) \<le> num_of (total a)) ?ys"
    by (simp add: sorted_map)
  have "sorted_wrt (\<lambda>a b. at_least (total a) (total b)) ?ys"
  proof (rule sorted_wrt_mono_rel [OF _ s])
    fix a b assume "a \<in> set ?ys" "b \<in> set ?ys" "num_of (total b) \<le> num_of (total a)"
    with assms obtain x y where "total a = Number x" "total b = Number y" "y \<le> x"
      by (auto simp: not_Text_iff)
    then show "at_least (total a) (total b)" by (simp add: at_least_def)
  qed
  then show ?thesis by (simp add: descending_def sort_by_numeric [OF assms])
qed


lemma set_categoryData: "set (categoryData es) = set (data_of (total_of es) (totals_of es))"
  by (simp add: categoryData_def set_sort_by)

lemma mset_categoryData: "mset (categoryData es) = mset (data_of (total_of es) (totals_of es))"
  by (simp add: categoryData_def mset_sort_by)

lemma mset_categories:
  "mset (map entry_category (categoryData es)) = mset (map fst (totals_of es))"
proof -
  have "mset (map entry_category (categoryData es))
      = mset (map entry_category (data_of (total_of es) (totals_of es)))"
    by (simp only: mset_map mset_categoryData)
  then show ?thesis by (simp only: categories_data_of mset_object_keys)
qed

lemma plain_entry_totals:
  assumes "plain_labels es" and "d \<in> set (categoryData es)"
  shows "total d = Number (category_sum es (entry_category d))"
  using assms total_data_of [OF plain_totals_of(1) [OF assms(1)], of d "total_of es"]
  by (simp add: set_categoryData plain_totals_of(5))

lemma plain_totals_sum:
  assumes "plain_labels es"
  shows "sum_list (map (\<lambda>d. num_of (total d)) (categoryData es)) = totalSpent es"
proof -
  have "sum_list (map (\<lambda>d. num_of (total d)) (categoryData es))
      = sum_list (map (\<lambda>d. num_of (total d)) (data_of (total_of es) (totals_of es)))"
    by (rule sum_list_mset_cong [OF mset_categoryData])
  also have "\<dots> = sum_list (map (\<lambda>p. num_of (snd p)) (totals_of es))"
    by (rule sum_total_data_of [OF plain_totals_of(1,3) [OF assms]])
  finally show ?thesis by (simp add: plain_totals_of(2) [OF assms] totalSpent_def)
qed

lemma plain_categories:
  assumes "plain_labels es"
  shows "distinct (map entry_category (categoryData es))"
    and "set (map entry_category (categoryData es)) = label ` set es"
proof -
  show "distinct (map entry_category (categoryData es))"
    using mset_categories [of es] plain_totals_of(3) [OF assms]
    by (metis mset_eq_imp_distinct_iff)
  have "set (map entry_category (categoryData es)) = set (map fst (totals_of es))"
    using mset_categories [of es] by (rule mset_eq_setD)
  then show "set (map entry_category (categoryData es)) = label ` set es"
    by (simp add: plain_totals_of(4) [OF assms])
qed

lemma plain_descending:
  assumes "plain_labels es"
  shows "descending (categoryData es)"
  unfolding categoryData_def
proof (rule descending_numeric, rule ballI)
  fix d assume "d \<in> set (data_of (total_of es) (totals_of es))"
  then have "total d = Number (held (totals_of es) (entry_category d))"
    by (rule total_data_of [OF plain_totals_of(1) [OF assms]])
  then show "total d \<noteq> Text" by simp
qed

lemma category_sum_pos:
  "\<forall>e\<in>set es. 0 < amount e \<Longrightarrow> k \<in> label ` set es \<Longrightarrow> 0 < category_sum es k"
proof (induction es)
  case Nil
  then show ?case by simp
next
  case (Cons e es)
  have nonneg: "0 \<le> category_sum es k"
    unfolding category_sum_def using Cons.prems(1)
    by (intro sum_list_nonneg) (auto simp: less_imp_le)
  show ?case
  proof (cases "label e = k")
    case True
    with nonneg Cons.prems(1) show ?thesis by (simp add: category_sum_def)
  next
    case False
    with Cons show ?thesis by (auto simp: category_sum_def)
  qed
qed

lemma category_sum_le_total:
  "\<forall>e\<in>set es. 0 \<le> amount e \<Longrightarrow> category_sum es k \<le> total_of es"
  unfolding total_of_sum category_sum_def
  by (induction es) (auto intro: add_increasing)

lemma total_of_pos: "es \<noteq> [] \<Longrightarrow> \<forall>e\<in>set es. 0 < amount e \<Longrightarrow> 0 < total_of es"
  unfolding total_of_sum
  by (cases es) (auto intro!: add_pos_nonneg sum_list_nonneg simp: less_imp_le)

lemma plain_positive_totals:
  assumes "plain_labels es" and "\<forall>e\<in>set es. 0 < amount e" and "d \<in> set (categoryData es)"
  shows "\<exists>x. total d = Number x \<and> 0 < x"
proof -
  from assms(3) have "entry_category d \<in> set (map entry_category (categoryData es))" by simp
  then have "entry_category d \<in> label ` set es" by (simp only: plain_categories(2) [OF assms(1)])
  with assms(2) have "0 < category_sum es (entry_category d)" by (rule category_sum_pos)
  with plain_entry_totals [OF assms(1,3)] show ?thesis by simp
qed

lemma plain_percentages:
  assumes "plain_labels es" and "es \<noteq> []" and "\<forall>e\<in>set es. 0 < amount e"
  shows "sum_list (map (\<lambda>d. case percentage d of Some p \<Rightarrow> p | None \<Rightarrow> 0) (categoryData es))
           = 100"
    and "d \<in> set (categoryData es) \<Longrightarrow> \<exists>p. percentage d = Some p \<and> 0 \<le> p \<and> p \<le> 100"
proof -
  let ?t = "total_of es"
  from assms(2,3) have t: "0 < ?t" by (rule total_of_pos)
  have p: "percentage d = Some (num_of (total d) * (100 / ?t))"
    if d: "d \<in> set (categoryData es)" for d
  proof -
    from d have d': "d \<in> set (data_of ?t (totals_of es))" by (simp add: set_categoryData)
    have "percentage d = Some (held (totals_of es) (entry_category d) / ?t * 100)"
      using percentage_data_of [OF plain_totals_of(1) [OF assms(1)] d'] t by simp
    moreover have "total d = Number (held (totals_of es) (entry_category d))"
      by (rule total_data_of [OF plain_totals_of(1) [OF assms(1)] d'])
    ultimately show ?thesis by simp
  qed
  have "map (\<lambda>d. case percentage d of Some p \<Rightarrow> p | None \<Rightarrow> 0) (categoryData es)
      = map (\<lambda>d. num_of (total d) * (100 / ?t)) (categoryData es)"
    by (intro map_cong) (auto simp: p)
  then have "sum_list (map (\<lambda>d. case percentage d of Some p \<Rightarrow> p | None \<Rightarrow> 0) (categoryData es))
      = sum_list (map (\<lambda>d. num_of (total d) * (100 / ?t)) (categoryData es))"
    by (rule arg_cong [where f = sum_list])
  also have "\<dots> = sum_list (map (\<lambda>d. num_of (total d)) (categoryData es)) * (100 / ?t)"
    by (simp only: sum_list_mult_const)
  also have "\<dots> = ?t * (100 / ?t)"
    by (simp add: plain_totals_sum [OF assms(1)] totalSpent_def)
  finally show "sum_list (map (\<lambda>d. case percentage d of Some p \<Rightarrow> p | None \<Rightarrow> 0)
      (categoryData es)) = 100"
    using t by simp
  assume d: "d \<in> set (categoryData es)"
  from plain_positive_totals [OF assms(1,3) d] obtain x where x: "total d = Number x" "0 < x"
    by blast
  from assms(3) have "\<forall>e\<in>set es. 0 \<le> amount e" by (auto simp: less_imp_le)
  then have "category_sum es (entry_category d) \<le> ?t" by (rule category_sum_le_total)
  with plain_entry_totals [OF assms(1) d] x have le: "x \<le> ?t" by simp
  from p [OF d] x have "percentage d = Some (x * (100 / ?t))" by simp
  moreover from x t have "0 \<le> x * (100 / ?t)" by simp
  moreover from le t have "x * (100 / ?t) \<le> 100" by (simp add: pos_divide_le_eq)
  ultimately show "\<exists>p. percentage d = Some p \<and> 0 \<le> p \<and> p \<le> 100" by blast
qed


subsection \<open>Concrete instances of the aggregation\<close>

lemma label_simps:
  "label (mk_expense i a None) = ''No Categorizado''"
  "label (mk_expense i a (Some [])) = ''No Categorizado''"
  "c \<noteq> [] \<Longrightarrow> label (mk_expense i a (Some c)) = c"
  by (simp_all add: label_def mk_expense_def)

lemma amount_mk [simp]: "amount (mk_expense i a c) = a"
  by (simp add: mk_expense_def)

lemma not_index:
  "\<not> is_array_index ''Comida''" "\<not> is_array_index ''Otros''"
  "\<not> is_array_index ''No Categorizado''"
  by (simp_all add: is_array_index_def is_digit_def)

lemma not_inherited:
  "\<not> inherited_member ''Comida''" "\<not> inherited_member ''Otros''"
  "\<not> inherited_member ''No Categorizado''"
  by (simp_all add: inherited_member_def prototype_functions_def)

lemma plain_sample: "plain_labels sample_expenses"
  by (simp add: plain_labels_def sample_expenses_def label_simps not_inherited)

lemma categoryData_sample:
  "categoryData sample_expenses =
     [\<lparr> entry_category = ''Comida'', total = Number 125, percentage = Some 50 \<rparr>,
      \<lparr> entry_category = ''No Categorizado'', total = Number 75, percentage = Some 30 \<rparr>,
      \<lparr> entry_category = ''Otros'', total = Number 50, percentage = Some 20 \<rparr>]"
  by code_simp

lemma toFixed1_examples:
  "toFixed1 (200 / 3) = Some ''66.7''" "toFixed1 (100 / 3) = Some ''33.3''"
  by code_simp+

text \<open>
  The example of the specification: for two expenses of 100 under \<open>Comida\<close> and 50 under
  \<open>Otros\<close>, whatever their other fields, \<open>totalSpent\<close> is 150 and \<open>categoryData\<close> lists
  \<open>Comida\<close> with 100 and \<open>200/3\<close> percent, then \<open>Otros\<close> with 50 and \<open>100/3\<close> percent,
  displayed by \<open>toFixed(1)\<close> as 66.7 and 33.3.
\<close>

lemma categoryData_example:
  "totalSpent [e1\<lparr> category := Some ''Comida'', amount := 100 \<rparr>,
               e2\<lparr> category := Some ''Otros'', amount := 50 \<rparr>] = 150
   \<and> categoryData [e1\<lparr> category := Some ''Comida'', amount := 100 \<rparr>,
                    e2\<lparr> category := Some ''Otros'', amount := 50 \<rparr>]
       = [\<lparr> entry_category = ''Comida'', total = Number 100, percentage = Some (200 / 3) \<rparr>,
          \<lparr> entry_category = ''Otros'', total = Number 50, percentage = Some (100 / 3) \<rparr>]
   \<and> map (\<lambda>d. (entry_category d, total d, display_percentage (percentage d)))
          (categoryData [e1\<lparr> category := Some ''Comida'', amount := 100 \<rparr>,
                         e2\<lparr> category := Some ''Otros'', amount := 50 \<rparr>])
       = [(''Comida'', Number 100, Some ''66.7''), (''Otros'', Number 50, Some ''33.3'')]"
proof -
  let ?ex = "[e1\<lparr> category := Some ''Comida'', amount := 100 \<rparr>,
              e2\<lparr> category := Some ''Otros'', amount := 50 \<rparr>]"
  have t: "total_of ?ex = 150" by (simp add: total_of_def)
  have ts: "totals_of ?ex = [(''Comida'', Number 100), (''Otros'', Number 50)]"
    by (simp add: totals_of_def totals_step_def label_def obj_get_def obj_assign_def
        accumulate_def not_inherited)
  have cd: "categoryData ?ex
       = [\<lparr> entry_category = ''Comida'', total = Number 100, percentage = Some (200 / 3) \<rparr>,
          \<lparr> entry_category = ''Otros'', total = Number 50, percentage = Some (100 / 3) \<rparr>]"
    unfolding categoryData_def t ts
    by (simp add: data_of_def object_keys_def not_index sort_by_def obj_get_def own_value_def
        percent_of_def compare_totals_def)
  show ?thesis
    unfolding cd by (simp add: totalSpent_def t toFixed1_examples display_percentage_def)
qed

text \<open>
  Under the label \<open>__proto__\<close> the reduction reads \<open>Object.prototype\<close> and assigns through
  the accessor, which creates no property: the expense counts in \<open>totalSpent\<close> and in no
  entry. Under the label \<open>constructor\<close> it reads a function and stores a text.
\<close>

lemma categoryData_proto:
  "categoryData proto_expenses
     = [\<lparr> entry_category = ''Otros'', total = Number 50, percentage = Some (100 / 3) \<rparr>]"
  by code_simp

lemma totalSpent_proto: "totalSpent proto_expenses = 150"
  by code_simp

lemma categoryData_constructor:
  "categoryData constructor_expenses
     = [\<lparr> entry_category = ''A'', total = Number 10, percentage = Some (200 / 7) \<rparr>,
        \<lparr> entry_category = ''constructor'', total = Text, percentage = None \<rparr>,
        \<lparr> entry_category = ''B'', total = Number 20, percentage = Some (400 / 7) \<rparr>]"
  by code_simp

lemma categoryData_constructor_pair:
  "categoryData constructor_pair
     = [\<lparr> entry_category = ''A'', total = Number 10, percentage = Some (200 / 3) \<rparr>,
        \<lparr> entry_category = ''constructor'', total = Text, percentage = None \<rparr>]"
  by code_simp

subsection \<open>AggregationEngine\<close>

text \<open>
  The four properties below are stated of every expense list. The code has them on the
  lists whose labels name no member inherited from \<open>Object.prototype\<close> (lemmas
  \<open>plain_totals_sum\<close>, \<open>plain_percentages\<close>, \<open>plain_descending\<close>, \<open>plain_categories\<close> and
  \<open>plain_positive_totals\<close>), and loses each of them on a list with such a label, through
  the one reading \<open>acc[category]\<close> of an accumulator created by \<open>{}\<close>.
\<close>

text \<open>
  Claim C4. The totals of the entries of \<open>categoryData\<close> are to add up to \<open>totalSpent\<close> for
  every non-empty expense list. For an expense of 100 under \<open>__proto__\<close> and one of 50 under
  \<open>Otros\<close>, \<open>totalSpent\<close> is 150, while \<open>categoryData\<close> has the one entry \<open>Otros\<close>, of total
  50: the totals of the entries add up to 50.
\<close>

theorem proto_label_drops_total:
  "proto_expenses \<noteq> []
   \<and> map (\<lambda>e. (label e, amount e)) proto_expenses = [(''__proto__'', 100), (''Otros'', 50)]
   \<and> totalSpent proto_expenses = 150
   \<and> map (\<lambda>d. (entry_category d, total d)) (categoryData proto_expenses)
       = [(''Otros'', Number 50)]
   \<and> sum_list (map (\<lambda>d. num_of (total d)) (categoryData proto_expenses)) = 50"
  by (simp add: categoryData_proto totalSpent_proto)
     (simp add: proto_expenses_def mk_expense_def label_def)

text \<open>
  Claim C5. The percentages are to sum to 100 for every non-empty expense list with
  strictly positive amounts. For the same two expenses, of 100 under \<open>__proto__\<close> and 50
  under \<open>Otros\<close>, the only percentage is \<open>100/3\<close>, displayed as 33.3: the percentages sum
  to a third of 100.
\<close>

theorem proto_label_percentages:
  "proto_expenses \<noteq> [] \<and> list_all (\<lambda>e. 0 < amount e) proto_expenses
   \<and> map percentage (categoryData proto_expenses) = [Some (100 / 3)]
   \<and> map (\<lambda>d. display_percentage (percentage d)) (categoryData proto_expenses)
       = [Some ''33.3'']"
  by (simp add: categoryData_proto display_percentage_def toFixed1_examples)
     (simp add: proto_expenses_def mk_expense_def)

text \<open>
  Claim C6. \<open>categoryData\<close> is to be in descending order of the totals for every expense
  list (the example of the claim is lemma \<open>categoryData_example\<close>). For expenses of 10
  under \<open>A\<close>, 5 under \<open>constructor\<close> and 20 under \<open>B\<close>, the total of \<open>constructor\<close> is a text,
  the comparator returns \<open>NaN\<close> on it, and the entries stay in the order of the keys: the
  total 10 comes before the total 20. With the first two expenses alone the comparator
  is consistent, the order is the one the language fixes, and the second total is a
  text, which no number is at least.
\<close>

theorem inherited_label_breaks_order:
  "map (\<lambda>d. (entry_category d, total d)) (categoryData constructor_expenses)
     = [(''A'', Number 10), (''constructor'', Text), (''B'', Number 20)]
   \<and> \<not> descending (categoryData constructor_expenses)
   \<and> map (\<lambda>d. (entry_category d, total d)) (categoryData constructor_pair)
       = [(''A'', Number 10), (''constructor'', Text)]
   \<and> \<not> descending (categoryData constructor_pair)"
  by (simp add: categoryData_constructor categoryData_constructor_pair descending_def
      at_least_def)

text \<open>
  Claim C10. \<open>categoryData\<close> is to have exactly one entry per label of the input, and
  strictly positive totals when the amounts are strictly positive. For the expenses of
  100 under \<open>__proto__\<close> and 50 under \<open>Otros\<close> there is no entry for \<open>__proto__\<close>; for the
  expenses of 10 under \<open>A\<close>, 5 under \<open>constructor\<close> and 20 under \<open>B\<close>, all strictly
  positive, the total of \<open>constructor\<close> is a text and not a positive number.
\<close>

theorem inherited_labels_entries:
  "map label proto_expenses = [''__proto__'', ''Otros'']
   \<and> map entry_category (categoryData proto_expenses) = [''Otros'']
   \<and> list_all (\<lambda>e. 0 < amount e) constructor_expenses
   \<and> map label constructor_expenses = [''A'', ''constructor'', ''B'']
   \<and> map (\<lambda>d. (entry_category d, total d)) (categoryData constructor_expenses)
       = [(''A'', Number 10), (''constructor'', Text), (''B'', Number 20)]"
  by (simp add: categoryData_proto categoryData_constructor)
     (simp add: proto_expenses_def constructor_expenses_def mk_expense_def label_def)

subsection \<open>\<open>trim\<close> is idempotent\<close>

lemma leading_None_iff:
  "leading ws s = None \<longleftrightarrow> (\<forall>w\<in>set ws. w = [] \<or> take (length w) s \<noteq> w)"
  by (auto simp: leading_def find_None_iff)

lemma leading_Some:
  "leading ws s = Some w \<Longrightarrow> w \<noteq> [] \<and> take (length w) s = w"
  by (auto simp: leading_def find_Some_iff)

lemma strip_id: "leading ws s = None \<Longrightarrow> strip ws s = s"
  by (subst strip.simps) simp

lemma leading_strip: "leading ws (strip ws s) = None"
proof (induction ws s rule: strip.induct)
  case (1 ws s)
  show ?case
  proof (cases "leading ws s")
    case None
    then show ?thesis by (simp add: strip_id)
  next
    case (Some w)
    with 1 show ?thesis by (subst strip.simps) simp
  qed
qed

lemma strip_suffix: "\<exists>p. s = p @ strip ws s"
proof (induction ws s rule: strip.induct)
  case (1 ws s)
  show ?case
  proof (cases "leading ws s")
    case None
    then show ?thesis by (simp add: strip_id)
  next
    case (Some w)
    with 1 obtain p where "drop (length w) s = p @ strip ws (drop (length w) s)" by blast
    then have "s = (take (length w) s @ p) @ strip ws (drop (length w) s)"
      by (metis append_assoc append_take_drop_id)
    moreover have "strip ws s = strip ws (drop (length w) s)"
      using Some by (subst strip.simps) simp
    ultimately show ?thesis by metis
  qed
qed

lemma leading_prefix:
  assumes "leading ws (x @ y) = None"
  shows "leading ws x = None"
  unfolding leading_None_iff
proof (intro ballI)
  fix w assume w: "w \<in> set ws"
  show "w = [] \<or> take (length w) x \<noteq> w"
  proof (rule disjCI)
    assume "\<not> take (length w) x \<noteq> w"
    then have t: "take (length w) x = w" by simp
    have "length (take (length w) x) = min (length x) (length w)" by simp
    with t have "length w \<le> length x" by simp
    with t have "take (length w) (x @ y) = w" by simp
    with assms w show "w = []" by (auto simp: leading_None_iff)
  qed
qed

lemma trim_idem: "trim (trim s) = trim s"
proof -
  define x where "x = strip white_space s"
  define y where "y = strip (map rev white_space) (rev x)"
  have t: "trim s = rev y" by (simp add: trim_def x_def y_def)
  obtain p where "rev x = p @ y" unfolding y_def using strip_suffix by blast
  then have "x = rev y @ rev p" by (metis rev_append rev_rev_ident)
  moreover have "leading white_space x = None" unfolding x_def by (rule leading_strip)
  ultimately have "leading white_space (rev y) = None" using leading_prefix by metis
  then have a: "strip white_space (rev y) = rev y" by (rule strip_id)
  have "leading (map rev white_space) y = None" unfolding y_def by (rule leading_strip)
  then have b: "strip (map rev white_space) y = y" by (rule strip_id)
  have "trim (rev y) = rev y" by (simp add: trim_def a b)
  then show ?thesis by (simp add: t)
qed

subsection \<open>Retries, classification and the two branches of \<open>handleSubmit\<close>\<close>

lemma fetch_calls: "list_all is_retry_io (snd (fetchWithBackoff svc k r d))"
proof (induction svc k r d rule: fetchWithBackoff.induct)
  case (1 svc k retries delay)
  show ?case
  proof (cases "outcome (svc k)")
    case (Inr p)
    then show ?thesis by (subst fetchWithBackoff.simps) simp
  next
    case (Inl e)
    show ?thesis
    proof (cases "retries > 0")
      case True
      with Inl 1 show ?thesis
        by (subst fetchWithBackoff.simps) (simp add: split_beta)
    next
      case False
      with Inl show ?thesis by (subst fetchWithBackoff.simps) simp
    qed
  qed
qed

lemma outcome_failed: "transport_failed x \<longleftrightarrow> isl (outcome x)"
  by (cases x) (simp_all add: transport_failed_def outcome_def)

lemma fetch_all_failed:
  "(\<forall>i\<le>r. transport_failed (svc (k + i))) \<Longrightarrow> isl (fst (fetchWithBackoff svc k r d))"
proof (induction r arbitrary: k d)
  case 0
  then have "isl (outcome (svc k))" by (simp add: outcome_failed)
  then show ?case by (subst fetchWithBackoff.simps) (auto simp: isl_def)
next
  case (Suc r)
  from Suc.prems have "transport_failed (svc (k + 0))" by blast
  then have f: "isl (outcome (svc k))" by (simp add: outcome_failed)
  have "\<forall>i\<le>r. transport_failed (svc (Suc k + i))"
    using Suc.prems by (metis add_Suc_shift Suc_le_mono)
  then have "isl (fst (fetchWithBackoff svc (Suc k) r (d * 2)))" by (rule Suc.IH)
  with f show ?case
    by (subst fetchWithBackoff.simps) (auto simp: isl_def split_beta)
qed

lemma fetch_first_success:
  "j \<le> r \<Longrightarrow> (\<forall>i<j. transport_failed (svc (k + i))) \<Longrightarrow> svc (k + j) = Result p
     \<Longrightarrow> fst (fetchWithBackoff svc k r d) = Inr p"
proof (induction j arbitrary: k r d)
  case 0
  then show ?case by (subst fetchWithBackoff.simps) (simp add: outcome_def)
next
  case (Suc j)
  from Suc.prems(2) have "transport_failed (svc (k + 0))" by blast
  then have f: "isl (outcome (svc k))" by (simp add: outcome_failed)
  from Suc.prems(1) obtain r' where r: "r = Suc r'" and jr: "j \<le> r'"
    by (cases r) auto
  have "\<forall>i<j. transport_failed (svc (Suc k + i))"
    using Suc.prems(2) by (metis add_Suc_shift Suc_less_eq)
  moreover have "svc (Suc k + j) = Result p" using Suc.prems(3) by simp
  ultimately have "fst (fetchWithBackoff svc (Suc k) r' (d * 2)) = Inr p"
    using jr by (intro Suc.IH)
  with f r show ?case
    by (subst fetchWithBackoff.simps) (auto simp: isl_def split_beta)
qed

lemma categorize_calls:
  "snd (categorizeExpense svc t) = Classify t # snd (fetchWithBackoff svc 0 3 1000)"
  by (simp add: categorizeExpense_def split: prod.splits sum.splits payload.splits)

lemma classify_calls_retry: "list_all is_retry_io tr \<Longrightarrow> classify_calls tr = 0"
  unfolding classify_calls_def
  by (induction tr) (auto elim: is_retry_io.elims)

lemma writes_retry: "list_all is_retry_io tr \<Longrightarrow> writes tr = []"
  unfolding writes_def
  by (induction tr) (auto elim: is_retry_io.elims)

lemma classify_calls_categorize: "classify_calls (snd (categorizeExpense svc t)) = 1"
  using classify_calls_retry [OF fetch_calls, of svc 0 3 1000]
  by (simp add: categorize_calls classify_calls_def)

lemma writes_categorize: "writes (snd (categorizeExpense svc t)) = []"
  using writes_retry [OF fetch_calls, of svc 0 3 1000]
  by (simp add: categorize_calls writes_def)

lemma categorize_caught:
  assumes "failure_caught svc"
  shows "fst (categorizeExpense svc t) = fallback"
proof -
  from assms consider
      (down) "\<forall>i\<le>3. transport_failed (svc (0 + i))"
    | (bad) j where "j \<le> 3" "\<forall>i<j. transport_failed (svc (0 + i))" "unusable (svc (0 + j))"
    unfolding failure_caught_def list_all_iff list_ex_iff
    by (auto simp: less_Suc_eq_le [symmetric] numeral_eq_Suc simp del: upt_Suc) 
  then show ?thesis
  proof cases
    case down
    then have "isl (fst (fetchWithBackoff svc 0 3 1000))" by (rule fetch_all_failed)
    then show ?thesis
      by (auto simp: categorizeExpense_def isl_def split: prod.splits)
  next
    case bad
    from bad(3) obtain p where p: "svc (0 + j) = Result p"
      and u: "p = ResultNull \<or> p = NoText \<or> p = TextNotJson"
      by (auto simp: unusable_def)
    from bad(1,2) p have "fst (fetchWithBackoff svc 0 3 1000) = Inr p"
      by (rule fetch_first_success)
    with u show ?thesis
      by (auto simp: categorizeExpense_def split: prod.splits)
  qed
qed

lemma classify_calls_append [simp]:
  "classify_calls (xs @ ys) = classify_calls xs + classify_calls ys"
  by (simp add: classify_calls_def)

lemma classify_calls_simps:
  "classify_calls [] = 0"
  "classify_calls (c # cs) = (if is_classify c then 1 else 0) + classify_calls cs"
  by (simp_all add: classify_calls_def)

lemma writes_append [simp]: "writes (xs @ ys) = writes xs @ writes ys"
  by (simp add: writes_def)

lemma write_update_calls:
  "snd (snd (write_update env s b i f tr)) = tr @ [UpdateDoc i f]"
  by (simp add: write_update_def split: option.splits)


lemma submit_edit_unchanged:
  assumes "trim (descriptionInput s) = editingOriginalDescription s"
  shows "snd (snd (submit_edit env s b a))
           = [UpdateDoc (editingDocId s)
                \<lparr> upd_amount = a, upd_description = trim (descriptionInput s),
                  upd_labels = None \<rparr>]"
  using assms by (simp add: submit_edit_def Let_def write_update_calls editingDocId_def)

lemma submit_edit_changed:
  assumes "trim (descriptionInput s) \<noteq> editingOriginalDescription s"
  shows "classify_calls (snd (snd (submit_edit env s b a))) = 1"
proof (cases "categorizeExpense (net env) (descriptionInput s)")
  case (Pair res tr)
  then have tr: "classify_calls tr = 1"
    using classify_calls_categorize [of "net env" "descriptionInput s"] by simp
  show ?thesis
  proof (cases res)
    case NullValue
    with Pair tr assms show ?thesis by (simp add: submit_edit_def Let_def)
  next
    case (Fields c k)
    with Pair tr assms show ?thesis
      by (simp add: submit_edit_def Let_def write_update_calls classify_calls_simps)
  qed
qed

lemma submit_edit_descriptions:
  "list_all (\<lambda>c. written_description c = Some (trim (descriptionInput s)))
     (writes (snd (snd (submit_edit env s b a))))"
proof (cases "categorizeExpense (net env) (descriptionInput s)")
  case (Pair res tr)
  then have tr: "writes tr = []"
    using writes_categorize [of "net env" "descriptionInput s"] by simp
  with Pair show ?thesis
    by (cases res) (auto simp: submit_edit_def Let_def write_update_calls writes_def)
qed

lemma submit_add_descriptions:
  "list_all (\<lambda>c. written_description c = Some (trim (descriptionInput s)))
     (writes (snd (snd (submit_add env s b a))))"
proof (cases "categorizeExpense (net env) (descriptionInput s)")
  case (Pair res tr)
  then have tr: "writes tr = []"
    using writes_categorize [of "net env" "descriptionInput s"] by simp
  with Pair show ?thesis
    by (cases res) (auto simp: submit_add_def Let_def writes_def)
qed

lemma written_descriptions_trimmed:
  "list_all (\<lambda>c. \<exists>d. written_description c = Some d \<and> trim d = d)
     (writes (snd (snd (handleSubmit env s b))))"
proof (cases "validate s")
  case (Inl e)
  then show ?thesis by (simp add: handleSubmit_def writes_def)
next
  case (Inr a)
  then have h: "handleSubmit env s b
      = (if isEditing s then submit_edit env s b a else submit_add env s b a)"
    by (simp add: handleSubmit_def)
  have "list_all (\<lambda>c. written_description c = Some (trim (descriptionInput s)))
     (writes (snd (snd (handleSubmit env s b))))"
    unfolding h by (simp add: submit_edit_descriptions submit_add_descriptions)
  then show ?thesis
    by (auto simp: list_all_iff trim_idem)
qed

text \<open>
  A payload that parses to \<open>null\<close> is not a failure for \<open>categorizeExpense\<close>, which returns
  it; the destructuring in \<open>handleSubmit\<close> then throws and the submission ends in the
  \<open>catch\<close> block with nothing written.
\<close>

lemma null_payload_aborts:
  assumes "\<not> isEditing s" and "validate s = Inr a" and "net env 0 = Result ParsedNull"
  shows "handleSubmit env s b
           = (submit_failed s, b, [Classify (descriptionInput s), HttpPost])"
proof -
  have "fetchWithBackoff (net env) 0 3 1000 = (Inr ParsedNull, [HttpPost])"
    using assms(3) by (subst fetchWithBackoff.simps) (simp add: outcome_def)
  then have "categorizeExpense (net env) (descriptionInput s)
      = (NullValue, [Classify (descriptionInput s), HttpPost])"
    by (simp add: categorizeExpense_def)
  with assms(1,2) show ?thesis by (simp add: handleSubmit_def submit_add_def)
qed


text \<open>
  Claim C7. For every submission in edit mode that passes the two guards, the number of
  calls of \<open>categorizeExpense\<close> is one when the trimmed description differs from the
  description the expense had when edit mode was entered, and none otherwise. In
  particular, when the description is left as it was (and was stored trimmed, as every
  description that \<open>handleSubmit\<close> writes is), the only call made is the \<open>updateDoc\<close> of
  amount and description, without labels.
\<close>

theorem edit_reclassifies_iff_description_changed:
  assumes "isEditing s" and "validate s = Inr a"
  shows "classify_calls (snd (snd (handleSubmit env s b)))
           = (if trim (descriptionInput s) \<noteq> editingOriginalDescription s then 1 else 0)
         \<and> (descriptionInput s = editingOriginalDescription s
              \<and> trim (editingOriginalDescription s) = editingOriginalDescription s
            \<longrightarrow> snd (snd (handleSubmit env s b))
                  = [UpdateDoc (editingDocId s)
                       \<lparr> upd_amount = a, upd_description = editingOriginalDescription s,
                         upd_labels = None \<rparr>])"
proof -
  have h: "handleSubmit env s b = submit_edit env s b a"
    using assms by (simp add: handleSubmit_def)
  show ?thesis
    unfolding h
    by (auto simp: submit_edit_changed submit_edit_unchanged classify_calls_simps)
qed

lemma validate_editing:
  "validate (editing_state ''cafe con leche'') = Inr (301 / 2)"
  "validate (editing_state ''taxi al aeropuerto'') = Inr (301 / 2)"
  by code_simp+

lemma trim_samples:
  "trim ''cafe con leche'' = ''cafe con leche''"
  "trim ''taxi al aeropuerto'' = ''taxi al aeropuerto''"
  by code_simp+

theorem edit_reclassifies_iff_description_changed_witness:
  "isEditing (editing_state ''cafe con leche'')
   \<and> validate (editing_state ''cafe con leche'') = Inr (301 / 2)
   \<and> descriptionInput (editing_state ''cafe con leche'')
       = editingOriginalDescription (editing_state ''cafe con leche'')
   \<and> trim (editingOriginalDescription (editing_state ''cafe con leche''))
       = editingOriginalDescription (editing_state ''cafe con leche'')
   \<and> classify_calls
        (snd (snd (handleSubmit env_slow (editing_state ''cafe con leche'') sample_backend))) = 0
   \<and> snd (snd (handleSubmit env_slow (editing_state ''cafe con leche'') sample_backend))
       = [UpdateDoc ''d1'' \<lparr> upd_amount = 301 / 2, upd_description = ''cafe con leche'',
                              upd_labels = None \<rparr>]
   \<and> isEditing (editing_state ''taxi al aeropuerto'')
   \<and> validate (editing_state ''taxi al aeropuerto'') = Inr (301 / 2)
   \<and> trim (descriptionInput (editing_state ''taxi al aeropuerto''))
       \<noteq> editingOriginalDescription (editing_state ''taxi al aeropuerto'')
   \<and> classify_calls
        (snd (snd (handleSubmit env_slow (editing_state ''taxi al aeropuerto'') sample_backend)))
       = 1"
proof -
  have e: "isEditing (editing_state d)" for d by (simp add: editing_state_def)
  have f: "descriptionInput (editing_state d) = d"
    "editingOriginalDescription (editing_state d) = ''cafe con leche''"
    "editingDocId (editing_state d) = ''d1''" for d
    by (simp_all add: editing_state_def editingDocId_def)
  show ?thesis
    using edit_reclassifies_iff_description_changed
            [OF e validate_editing(1), of env_slow sample_backend]
          edit_reclassifies_iff_description_changed
            [OF e validate_editing(2), of env_slow sample_backend]
    by (simp add: e f validate_editing trim_samples classify_calls_simps)
qed


lemma validate_Inr:
  "validate s = Inr a \<Longrightarrow> parseFloat (keep_numeric (amountInput s)) = Some a \<and> 0 < a
     \<and> trim (descriptionInput s) \<noteq> [] \<and> \<not> not_ready s"
  by (auto simp: validate_def split: option.splits if_splits)

lemma submit_edit_amounts:
  "list_all (\<lambda>c. written_amount c = Some a) (writes (snd (snd (submit_edit env s b a))))"
proof (cases "categorizeExpense (net env) (descriptionInput s)")
  case (Pair res tr)
  then have tr: "writes tr = []"
    using writes_categorize [of "net env" "descriptionInput s"] by simp
  with Pair show ?thesis
    by (cases res) (auto simp: submit_edit_def Let_def write_update_calls writes_def)
qed

lemma submit_add_amounts:
  "list_all (\<lambda>c. written_amount c = Some a) (writes (snd (snd (submit_add env s b a))))"
proof (cases "categorizeExpense (net env) (descriptionInput s)")
  case (Pair res tr)
  then have tr: "writes tr = []"
    using writes_categorize [of "net env" "descriptionInput s"] by simp
  with Pair show ?thesis
    by (cases res) (auto simp: submit_add_def Let_def writes_def)
qed

lemma submit_edit_nonempty: "snd (snd (submit_edit env s b a)) \<noteq> []"
proof (cases "categorizeExpense (net env) (descriptionInput s)")
  case (Pair res tr)
  then have "tr \<noteq> []"
    using categorize_calls [of "net env" "descriptionInput s"] by auto
  with Pair show ?thesis
    by (cases res) (auto simp: submit_edit_def Let_def write_update_calls)
qed

lemma submit_add_nonempty: "snd (snd (submit_add env s b a)) \<noteq> []"
proof (cases "categorizeExpense (net env) (descriptionInput s)")
  case (Pair res tr)
  then have "tr \<noteq> []"
    using categorize_calls [of "net env" "descriptionInput s"] by auto
  with Pair show ?thesis
    by (cases res) (auto simp: submit_add_def Let_def)
qed


lemma submit_add_caught:
  assumes "failure_caught (net env)"
  shows "writes (snd (snd (submit_add env s b a))) = [AddExpense (fallback_doc env s a)]"
    and "classify_calls (snd (snd (submit_add env s b a))) = 1"
    and "write_ok env \<Longrightarrow>
           fst (snd (submit_add env s b a))
             = b\<lparr> expensesCol := expensesCol b @ [(new_id env, fallback_doc env s a)] \<rparr>"
    and "write_ok env \<Longrightarrow> error (fst (submit_add env s b a)) = None"
proof -
  obtain res tr where c: "categorizeExpense (net env) (descriptionInput s) = (res, tr)"
    by (cases "categorizeExpense (net env) (descriptionInput s)")
  from assms have "fst (categorizeExpense (net env) (descriptionInput s)) = fallback"
    by (rule categorize_caught)
  with c have res: "res = Fields (Some ''No Categorizado'') (Some ''Manual'')"
    by (simp add: fallback_def)
  from c have w: "writes tr = []"
    using writes_categorize [of "net env" "descriptionInput s"] by simp
  from c have n: "classify_calls tr = 1"
    using classify_calls_categorize [of "net env" "descriptionInput s"] by simp
  show "writes (snd (snd (submit_add env s b a))) = [AddExpense (fallback_doc env s a)]"
    using c res w by (simp add: submit_add_def Let_def fallback_doc_def writes_def)
  show "classify_calls (snd (snd (submit_add env s b a))) = 1"
    using c res n by (simp add: submit_add_def Let_def classify_calls_simps)
  show "write_ok env \<Longrightarrow>
           fst (snd (submit_add env s b a))
             = b\<lparr> expensesCol := expensesCol b @ [(new_id env, fallback_doc env s a)] \<rparr>"
    using c res by (simp add: submit_add_def Let_def fallback_doc_def)
  show "write_ok env \<Longrightarrow> error (fst (submit_add env s b a)) = None"
    using c res by (simp add: submit_add_def Let_def)
qed

text \<open>
  On a new submission that passes the two guards and whose classification fails in a way
  that \<open>categorizeExpense\<close> catches, exactly one \<open>addDoc\<close> is issued and it carries the
  category \<open>No Categorizado\<close> and the classification \<open>Manual\<close>; there is one classification
  call; and when the store accepts the write, the collection gains exactly that document
  and no error is set.
\<close>

lemma caught_failure_persists_fallback:
  assumes "\<not> isEditing s" and "validate s = Inr a"
    and "failure_caught (net env)"
  shows "writes (snd (snd (handleSubmit env s b))) = [AddExpense (fallback_doc env s a)]
         \<and> classify_calls (snd (snd (handleSubmit env s b))) = 1
         \<and> (write_ok env \<longrightarrow>
               fst (snd (handleSubmit env s b))
                 = b\<lparr> expensesCol := expensesCol b @ [(new_id env, fallback_doc env s a)] \<rparr>
               \<and> error (fst (handleSubmit env s b)) = None)"
proof -
  have h: "handleSubmit env s b = submit_add env s b a"
    using assms(1,2) by (simp add: handleSubmit_def)
  show ?thesis
    unfolding h using submit_add_caught [OF assms(3)] by blast
qed

lemma validate_sample: "validate sample_state = Inr 50"
  by code_simp

lemma caught_down: "failure_caught net_down"
  by code_simp

lemma run_sample_down:
  "handleSubmit env_down sample_state empty_backend =
     (sample_state\<lparr> amountInput := [], descriptionInput := [] \<rparr>,
      \<lparr> expensesCol =
          [(''d2'', \<lparr> amount = 50, description = ''cafe con leche'',
                     category = Some ''No Categorizado'', classification = Some ''Manual'',
                     timestamp = Some 2000 \<rparr>)],
        historyCol = [] \<rparr>,
      [Classify '' cafe con leche '', HttpPost, Sleep 1000, HttpPost, Sleep 2000, HttpPost,
       Sleep 4000, HttpPost,
       AddExpense \<lparr> amount = 50, description = ''cafe con leche'',
                    category = Some ''No Categorizado'', classification = Some ''Manual'',
                    timestamp = Some 2000 \<rparr>])"
  by code_simp

text \<open>
  Claim C8. A new submission whose classification fails, by a payload that is malformed
  or empty among other ways, is still to persist exactly one expense, under
  \<open>No Categorizado\<close> and \<open>Manual\<close>, and never to be aborted. When the service answers with
  the text \<open>null\<close>, \<open>JSON.parse\<close> returns \<open>null\<close>, \<open>categorizeExpense\<close> returns it, and the
  destructuring in \<open>handleSubmit\<close> throws: the submission of \<open>-50\<close>, which passes the
  guards with the amount 50, ends in the \<open>catch\<close> block after one exchange, with the
  error set and no write issued. When the service answers with the text \<open>{}\<close>, the one
  \<open>addDoc\<close> issued carries neither label.
\<close>

theorem unstructured_payload_not_caught:
  "\<not> isEditing sample_state \<and> validate sample_state = Inr 50
   \<and> handleSubmit env_null sample_state empty_backend
       = (sample_state\<lparr> error := Some SubmitFailed, isLoading := False \<rparr>, empty_backend,
          [Classify '' cafe con leche '', HttpPost])
   \<and> writes (snd (snd (handleSubmit env_null sample_state empty_backend))) = []
   \<and> writes (snd (snd (handleSubmit env_empty_object sample_state empty_backend)))
       = [AddExpense \<lparr> amount = 50, description = ''cafe con leche'', category = None,
                       classification = None, timestamp = Some 2000 \<rparr>]"
  by code_simp

text \<open>
  Claim C9. For every amount string, either a guard blocks the submission, with no call
  made and the store untouched, or the submission proceeds with the parsed amount, which
  is strictly positive and is the amount of every write. The filter drops a minus sign:
  \<open>-50\<close> is read as \<open>50\<close>, accepted, and written with amount 50.
\<close>

theorem validation_blocks_or_positive:
  "(case validate s of
      Inl e \<Rightarrow> handleSubmit env s b = (s\<lparr> error := Some e \<rparr>, b, [])
    | Inr a \<Rightarrow> parseFloat (keep_numeric (amountInput s)) = Some a \<and> 0 < a
               \<and> snd (snd (handleSubmit env s b)) \<noteq> []
               \<and> list_all (\<lambda>c. written_amount c = Some a)
                    (writes (snd (snd (handleSubmit env s b)))))
   \<and> keep_numeric ''-50'' = ''50''
   \<and> amountInput sample_state = ''-50''
   \<and> validate sample_state = Inr 50
   \<and> writes (snd (snd (handleSubmit env_down sample_state empty_backend)))
       = [AddExpense \<lparr> amount = 50, description = ''cafe con leche'',
                       category = Some ''No Categorizado'', classification = Some ''Manual'',
                       timestamp = Some 2000 \<rparr>]"
proof -
  have gen: "case validate s of
      Inl e \<Rightarrow> handleSubmit env s b = (s\<lparr> error := Some e \<rparr>, b, [])
    | Inr a \<Rightarrow> parseFloat (keep_numeric (amountInput s)) = Some a \<and> 0 < a
               \<and> snd (snd (handleSubmit env s b)) \<noteq> []
               \<and> list_all (\<lambda>c. written_amount c = Some a)
                    (writes (snd (snd (handleSubmit env s b))))"
  proof (cases "validate s")
    case (Inl e)
    then show ?thesis by (simp add: handleSubmit_def)
  next
    case (Inr a)
    then have h: "handleSubmit env s b
        = (if isEditing s then submit_edit env s b a else submit_add env s b a)"
      by (simp add: handleSubmit_def)
    from Inr show ?thesis
      unfolding h using validate_Inr [OF Inr]
      by (simp add: submit_edit_amounts submit_add_amounts submit_edit_nonempty
          submit_add_nonempty)
  qed
  have k: "keep_numeric ''-50'' = ''50''" by code_simp
  have a: "amountInput sample_state = ''-50''" by (simp add: sample_state_def)
  show ?thesis
    using gen k a validate_sample by (simp add: run_sample_down writes_def)
qed

theorem validation_blocks_or_positive_witness:
  "validate sample_state = Inr 50
   \<and> parseFloat (keep_numeric (amountInput sample_state)) = Some 50 \<and> (0::rat) < 50
   \<and> snd (snd (handleSubmit env_down sample_state empty_backend)) \<noteq> []
   \<and> list_all (\<lambda>c. written_amount c = Some 50)
        (writes (snd (snd (handleSubmit env_down sample_state empty_backend))))"
proof -
  have "case validate sample_state of
          Inl e \<Rightarrow> handleSubmit env_down sample_state empty_backend
                     = (sample_state\<lparr> error := Some e \<rparr>, empty_backend, [])
        | Inr a \<Rightarrow> parseFloat (keep_numeric (amountInput sample_state)) = Some a \<and> 0 < a
               \<and> snd (snd (handleSubmit env_down sample_state empty_backend)) \<noteq> []
               \<and> list_all (\<lambda>c. written_amount c = Some a)
                    (writes (snd (snd (handleSubmit env_down sample_state empty_backend))))"
    using validation_blocks_or_positive
            [where s = sample_state and env = env_down and b = empty_backend]
    by (rule conjunct1)
  then show ?thesis by (simp add: validate_sample)
qed

subsection \<open>ArchivalWorkflow\<close>


lemma promise_all_fulfilled:
  assumes "list_all snd ps"
  shows "snd (promise_all ps)" and "\<forall>p\<in>set ps. fst p \<le> fst (promise_all ps)"
proof -
  from assms have f: "filter (\<lambda>p. \<not> snd p) ps = []"
    by (simp add: list_all_iff filter_empty_conv)
  then show "snd (promise_all ps)" by (simp add: promise_all_def)
  have "fold max (map fst ps) 0 = Max (set (0 # map fst ps))"
    by (simp only: Max.set_eq_fold)
  then have "\<forall>p\<in>set ps. fst p \<le> fold max (map fst ps) 0" by simp
  with f show "\<forall>p\<in>set ps. fst p \<le> fst (promise_all ps)"
    by (simp add: promise_all_def)
qed

lemma promise_all_rejected:
  assumes "\<not> list_all snd ps"
  shows "\<not> snd (promise_all ps)"
    and "fst (promise_all ps) = Min (fst ` {p \<in> set ps. \<not> snd p})"
proof -
  from assms obtain f fs where f: "filter (\<lambda>p. \<not> snd p) ps = f # fs"
    by (cases "filter (\<lambda>p. \<not> snd p) ps") (auto simp: list_all_iff filter_empty_conv)
  then show "\<not> snd (promise_all ps)" by (simp add: promise_all_def)
  have "fold min (map fst fs) (fst f) = Min (set (map fst (f # fs)))"
    by (simp only: list.map Min.set_eq_fold)
  also have "set (map fst (f # fs)) = fst ` {p \<in> set ps. \<not> snd p}"
    unfolding f [symmetric] by auto
  finally show "fst (promise_all ps) = Min (fst ` {p \<in> set ps. \<not> snd p})"
    using f by (simp add: promise_all_def)
qed

lemma archive_proceeds:
  assumes "\<not> not_ready s" "expenses s \<noteq> []" "confirm env" "history_ok env" "getDocs_ok env"
  shows "handleResetAndArchive env s b =
     (let ids = map fst (expensesCol b);
          res = promise_all (map (\<lambda>i. (delete_time env i, delete_ok env i)) ids)
      in \<lparr> app = (if snd res then s\<lparr> error := None, isArchiving := False \<rparr>
                   else archive_failed s),
            store = \<lparr> expensesCol = filter (\<lambda>p. \<not> delete_ok env (fst p)) (expensesCol b),
                      historyCol = historyCol b @ [(history_id env, archiveData env s)] \<rparr>,
            calls = [AddHistory (archiveData env s), GetDocs] @ map DeleteDoc ids,
            pending = filter (\<lambda>i. fst res < delete_time env i) ids \<rparr>)"
  using assms by (simp add: handleResetAndArchive_def Let_def split_beta)

lemma filter_delete_map: "filter is_delete (map DeleteDoc ids) = map DeleteDoc ids"
  by (induction ids) auto

lemma settle_all: "list_all snd (map (\<lambda>i. (delete_time env i, delete_ok env i)) ids)
    \<longleftrightarrow> list_all (delete_ok env) ids"
  by (simp add: list_all_iff)

lemma failure_times:
  "fst ` {p \<in> set (map (\<lambda>i. (delete_time env i, delete_ok env i)) ids). \<not> snd p}
     = delete_time env ` {i \<in> set ids. \<not> delete_ok env i}"
  by force

lemma delete_batch_outcome:
  assumes "\<not> not_ready s" and "expenses s \<noteq> []" and "confirm env"
    and "history_ok env" and "getDocs_ok env"
  shows "filter is_delete (calls (handleResetAndArchive env s b))
           = map DeleteDoc (snapshot_ids b)
         \<and> (list_all (delete_ok env) (snapshot_ids b) \<longrightarrow>
               pending (handleResetAndArchive env s b) = []
               \<and> error (app (handleResetAndArchive env s b)) = None)
         \<and> (\<not> list_all (delete_ok env) (snapshot_ids b) \<longrightarrow>
               error (app (handleResetAndArchive env s b)) = Some ArchiveFailed
               \<and> pending (handleResetAndArchive env s b)
                   = filter (\<lambda>i. earliest_failure env (snapshot_ids b) < delete_time env i)
                       (snapshot_ids b))"
proof -
  let ?ids = "map fst (expensesCol b)"
  let ?ps = "map (\<lambda>i. (delete_time env i, delete_ok env i)) ?ids"
  note run = archive_proceeds [OF assms, of b]
  have batch: "filter is_delete (calls (handleResetAndArchive env s b)) = map DeleteDoc ?ids"
    unfolding run by (simp add: Let_def filter_delete_map)
  have ok: "pending (handleResetAndArchive env s b) = []
      \<and> error (app (handleResetAndArchive env s b)) = None"
    if a: "list_all (delete_ok env) ?ids"
  proof -
    from a have l: "list_all snd ?ps" unfolding settle_all .
    have "\<forall>i\<in>set ?ids. delete_time env i \<le> fst (promise_all ?ps)"
      using promise_all_fulfilled(2) [OF l] by simp
    then have "filter (\<lambda>i. fst (promise_all ?ps) < delete_time env i) ?ids = []"
      by (auto simp: filter_empty_conv not_less)
    then show ?thesis
      unfolding run using promise_all_fulfilled(1) [OF l] by (simp add: Let_def)
  qed
  have bad: "error (app (handleResetAndArchive env s b)) = Some ArchiveFailed
      \<and> pending (handleResetAndArchive env s b)
          = filter (\<lambda>i. earliest_failure env ?ids < delete_time env i) ?ids"
    if a: "\<not> list_all (delete_ok env) ?ids"
  proof -
    from a have l: "\<not> list_all snd ?ps" unfolding settle_all .
    have t: "fst (promise_all ?ps) = earliest_failure env ?ids"
      unfolding promise_all_rejected(2) [OF l] failure_times earliest_failure_def ..
    show ?thesis
      unfolding run using promise_all_rejected(1) [OF l] t
      by (auto simp: Let_def archive_failed_def)
  qed
  from batch ok bad show ?thesis unfolding snapshot_ids_def by blast
qed


lemma length_onSnapshot: "length (onSnapshot_expenses t docs) = length docs"
  by (simp add: onSnapshot_expenses_def)

lemma amount_to_expense: "amount (to_expense t p) = amount (snd p)"
  by (simp add: to_expense_def)

lemma total_onSnapshot:
  "total_of (onSnapshot_expenses t docs) = sum_list (map (\<lambda>p. amount (snd p)) docs)"
proof -
  have "mset (onSnapshot_expenses t docs) = mset (map (to_expense t) docs)"
    by (simp add: onSnapshot_expenses_def)
  then have "sum_list (map amount (onSnapshot_expenses t docs))
      = sum_list (map amount (map (to_expense t) docs))"
    by (rule sum_list_mset_cong)
  then show ?thesis by (simp add: total_of_sum comp_def amount_to_expense)
qed

lemma archive_history_fails:
  assumes "\<not> history_ok env"
  shows "handleResetAndArchive env s b =
     (if not_ready s \<or> expenses s = [] \<or> \<not> confirm env
      then \<lparr> app = s, store = b, calls = [], pending = [] \<rparr>
      else \<lparr> app = archive_failed s, store = b, calls = [AddHistory (archiveData env s)],
             pending = [] \<rparr>)"
  using assms by (simp add: handleResetAndArchive_def)


lemma guards_state2: "\<not> not_ready state2" "expenses state2 \<noteq> []"
  by code_simp+


lemma history_down: "\<not> history_ok archive_history_down" "confirm archive_history_down"
  by (simp_all add: archive_history_down_def archive_ok_def)


lemma run_delete_fails:
  "filter is_delete (calls (handleResetAndArchive archive_delete_fails state2 store2))
     = [DeleteDoc ''d1'', DeleteDoc ''d2'']"
  "pending (handleResetAndArchive archive_delete_fails state2 store2) = [''d2'']"
  "error (app (handleResetAndArchive archive_delete_fails state2 store2)) = Some ArchiveFailed"
  "isArchiving (app (handleResetAndArchive archive_delete_fails state2 store2)) = False"
  by code_simp+


text \<open>
  Claim C1. When the write of the archive record to the history collection fails, no
  delete is issued and none is left in flight, the store (the expenses collection and the
  history collection) is as it was, the state variable \<open>expenses\<close> is unchanged, and, the
  handler having got past its guards to the write, that write is the only call made and
  the error message is set.
\<close>

theorem archive_fail_closed:
  assumes "\<not> history_ok env"
  shows "filter is_delete (calls (handleResetAndArchive env s b)) = []
         \<and> pending (handleResetAndArchive env s b) = []
         \<and> store (handleResetAndArchive env s b) = b
         \<and> expenses (app (handleResetAndArchive env s b)) = expenses s
         \<and> (\<not> not_ready s \<and> expenses s \<noteq> [] \<and> confirm env \<longrightarrow>
               calls (handleResetAndArchive env s b) = [AddHistory (archiveData env s)]
               \<and> error (app (handleResetAndArchive env s b)) = Some ArchiveFailed)"
  unfolding archive_history_fails [OF assms]
  by (simp add: archive_failed_def)


theorem archive_fail_closed_witness:
  "\<not> history_ok archive_history_down \<and> \<not> not_ready state2 \<and> expenses state2 \<noteq> []
   \<and> confirm archive_history_down
   \<and> filter is_delete (calls (handleResetAndArchive archive_history_down state2 store2)) = []
   \<and> store (handleResetAndArchive archive_history_down state2 store2) = store2
   \<and> expenses (app (handleResetAndArchive archive_history_down state2 store2))
       = expenses state2
   \<and> calls (handleResetAndArchive archive_history_down state2 store2)
       = [AddHistory (archiveData archive_history_down state2)]
   \<and> error (app (handleResetAndArchive archive_history_down state2 store2))
       = Some ArchiveFailed"
  using archive_fail_closed [OF history_down(1), of state2 store2]
  by (simp add: history_down guards_state2)


text \<open>
  Claim C2. Let the state mirror a non-empty expenses collection of \<open>N\<close> documents (no
  concurrent mutation), and let the confirmation, the write to the history collection,
  \<open>getDocs\<close> and every delete succeed. Then the history collection gains exactly one
  record, whose \<open>totalExpensesCount\<close> is \<open>N\<close> and whose \<open>totalSpent\<close> is the grand total
  of the aggregation over the expenses before the archival (the sum of their amounts);
  the expenses collection is empty afterwards, and so is what the listener shows; no
  delete is left in flight and no error is set.
\<close>

theorem archive_success:
  assumes "\<not> not_ready s" and "expenses s = onSnapshot_expenses t (expensesCol b)"
    and "expensesCol b \<noteq> []" and "confirm env" and "history_ok env" and "getDocs_ok env"
    and "list_all (delete_ok env) (snapshot_ids b)"
  shows "historyCol (store (handleResetAndArchive env s b))
           = historyCol b @ [(history_id env, archiveData env s)]
         \<and> totalExpensesCount (archiveData env s) = length (expensesCol b)
         \<and> archive_totalSpent (archiveData env s) = totalSpent (expenses s)
         \<and> totalSpent (expenses s) = sum_list (map (\<lambda>p. amount (snd p)) (expensesCol b))
         \<and> expensesCol (store (handleResetAndArchive env s b)) = []
         \<and> onSnapshot_expenses t' (expensesCol (store (handleResetAndArchive env s b))) = []
         \<and> pending (handleResetAndArchive env s b) = []
         \<and> error (app (handleResetAndArchive env s b)) = None"
proof -
  from assms(2,3) have ne: "expenses s \<noteq> []"
    using length_onSnapshot [of t "expensesCol b"] by auto
  note run = archive_proceeds [OF assms(1) ne assms(4,5,6), of b]
  from assms(7) have all: "\<forall>p\<in>set (expensesCol b). delete_ok env (fst p)"
    by (simp add: snapshot_ids_def list_all_iff)
  then have gone: "filter (\<lambda>p. \<not> delete_ok env (fst p)) (expensesCol b) = []"
    by (simp add: filter_empty_conv)
  have hist: "historyCol (store (handleResetAndArchive env s b))
           = historyCol b @ [(history_id env, archiveData env s)]"
    unfolding run by (simp add: Let_def)
  have empty: "expensesCol (store (handleResetAndArchive env s b)) = []"
    unfolding run by (simp add: Let_def gone)
  have cnt: "totalExpensesCount (archiveData env s) = length (expensesCol b)"
    by (simp add: archiveData_def assms(2) length_onSnapshot)
  have tot: "archive_totalSpent (archiveData env s) = totalSpent (expenses s)"
    by (simp add: archiveData_def)
  have agg: "totalSpent (expenses s) = sum_list (map (\<lambda>p. amount (snd p)) (expensesCol b))"
    by (simp add: totalSpent_def assms(2) total_onSnapshot)
  have view: "onSnapshot_expenses t' (expensesCol (store (handleResetAndArchive env s b))) = []"
    unfolding empty by (simp add: onSnapshot_expenses_def)
  have fin: "pending (handleResetAndArchive env s b) = []"
    "error (app (handleResetAndArchive env s b)) = None"
    using delete_batch_outcome [OF assms(1) ne assms(4,5,6), of b] assms(7) by blast+
  show ?thesis
    by (intro conjI) (fact hist cnt tot agg empty view fin)+
qed

theorem archive_success_witness:
  "\<not> not_ready state2 \<and> expenses state2 = onSnapshot_expenses 0 (expensesCol store2)
   \<and> expensesCol store2 \<noteq> [] \<and> confirm archive_ok \<and> history_ok archive_ok
   \<and> getDocs_ok archive_ok \<and> list_all (delete_ok archive_ok) (snapshot_ids store2)
   \<and> historyCol (store (handleResetAndArchive archive_ok state2 store2))
       = [(''h1'', archiveData archive_ok state2)]
   \<and> totalExpensesCount (archiveData archive_ok state2) = 2
   \<and> archive_totalSpent (archiveData archive_ok state2) = 200
   \<and> expensesCol (store (handleResetAndArchive archive_ok state2 store2)) = []
   \<and> pending (handleResetAndArchive archive_ok state2 store2) = []
   \<and> error (app (handleResetAndArchive archive_ok state2 store2)) = None"
proof -
  have m: "expenses state2 = onSnapshot_expenses 0 (expensesCol store2)"
    by (simp add: state2_def sample_state_def)
  have n: "expensesCol store2 \<noteq> []" by (simp add: store2_def)
  have e: "confirm archive_ok" "history_ok archive_ok" "getDocs_ok archive_ok"
    by (simp_all add: archive_ok_def)
  have a: "list_all (delete_ok archive_ok) (snapshot_ids store2)"
    by (simp add: snapshot_ids_def store2_def archive_ok_def)
  have v: "sum_list (map (\<lambda>p. amount (snd p)) (expensesCol store2)) = 200"
    "length (expensesCol store2) = 2" "historyCol store2 = []" "history_id archive_ok = ''h1''"
    by (simp_all add: store2_def sample_doc_def archive_ok_def)
  show ?thesis
    using archive_success [OF guards_state2(1) m n e a, of 0] m n e a
    by (simp add: guards_state2 v)
qed

text \<open>
  Claim C3, as the code has it. Once the handler is past the write to the history
  collection and \<open>getDocs\<close>, it issues one delete for every document of the snapshot,
  whatever the outcome of the others. When every delete succeeds the handler returns
  after all of them have settled. When some delete fails it returns, with the error
  message set, when the earliest failure settles: the deletes that settle later are still
  in flight then.
\<close>

theorem delete_batch_gating:
  assumes "\<not> not_ready s" and "expenses s \<noteq> []" and "confirm env"
    and "history_ok env" and "getDocs_ok env"
  shows "filter is_delete (calls (handleResetAndArchive env s b))
           = map DeleteDoc (snapshot_ids b)
         \<and> (list_all (delete_ok env) (snapshot_ids b) \<longrightarrow>
               pending (handleResetAndArchive env s b) = []
               \<and> error (app (handleResetAndArchive env s b)) = None)
         \<and> (\<not> list_all (delete_ok env) (snapshot_ids b) \<longrightarrow>
               error (app (handleResetAndArchive env s b)) = Some ArchiveFailed
               \<and> pending (handleResetAndArchive env s b)
                   = filter (\<lambda>i. earliest_failure env (snapshot_ids b) < delete_time env i)
                       (snapshot_ids b))"
  using assms by (rule delete_batch_outcome)

theorem delete_batch_gating_witness:
  "\<not> not_ready state2 \<and> expenses state2 \<noteq> [] \<and> confirm archive_ok \<and> history_ok archive_ok
   \<and> getDocs_ok archive_ok \<and> list_all (delete_ok archive_ok) (snapshot_ids store2)
   \<and> filter is_delete (calls (handleResetAndArchive archive_ok state2 store2))
       = [DeleteDoc ''d1'', DeleteDoc ''d2'']
   \<and> pending (handleResetAndArchive archive_ok state2 store2) = []
   \<and> error (app (handleResetAndArchive archive_ok state2 store2)) = None
   \<and> confirm archive_delete_fails \<and> history_ok archive_delete_fails
   \<and> getDocs_ok archive_delete_fails
   \<and> \<not> list_all (delete_ok archive_delete_fails) (snapshot_ids store2)
   \<and> earliest_failure archive_delete_fails (snapshot_ids store2) = 1
   \<and> error (app (handleResetAndArchive archive_delete_fails state2 store2))
       = Some ArchiveFailed
   \<and> pending (handleResetAndArchive archive_delete_fails state2 store2) = [''d2'']"
proof -
  have e1: "confirm archive_ok" "history_ok archive_ok" "getDocs_ok archive_ok"
    by (simp_all add: archive_ok_def)
  have e2: "confirm archive_delete_fails" "history_ok archive_delete_fails"
    "getDocs_ok archive_delete_fails"
    by (simp_all add: archive_delete_fails_def archive_ok_def)
  have ids: "snapshot_ids store2 = [''d1'', ''d2'']"
    by (simp add: snapshot_ids_def store2_def)
  have a1: "list_all (delete_ok archive_ok) (snapshot_ids store2)"
    unfolding ids by (simp add: archive_ok_def)
  have a2: "\<not> list_all (delete_ok archive_delete_fails) (snapshot_ids store2)"
    unfolding ids by (simp add: archive_delete_fails_def archive_ok_def)
  have ef: "earliest_failure archive_delete_fails (snapshot_ids store2) = 1"
  proof -
    have "{i \<in> set [''d1'', ''d2'']. \<not> delete_ok archive_delete_fails i} = {''d1''}"
      by (auto simp: archive_delete_fails_def archive_ok_def)
    then show ?thesis
      unfolding ids by (simp add: earliest_failure_def archive_delete_fails_def archive_ok_def)
  qed
  note t1 = delete_batch_gating [OF guards_state2 e1, of store2]
  note t2 = delete_batch_gating [OF guards_state2 e2, of store2]
  from t1 have "filter is_delete (calls (handleResetAndArchive archive_ok state2 store2))
      = map DeleteDoc (snapshot_ids store2)" by blast
  then have b1: "filter is_delete (calls (handleResetAndArchive archive_ok state2 store2))
      = [DeleteDoc ''d1'', DeleteDoc ''d2'']" unfolding ids by simp
  from t1 a1 have p1: "pending (handleResetAndArchive archive_ok state2 store2) = []"
    "error (app (handleResetAndArchive archive_ok state2 store2)) = None" by blast+
  from t2 a2 have p2:
    "error (app (handleResetAndArchive archive_delete_fails state2 store2)) = Some ArchiveFailed"
    "pending (handleResetAndArchive archive_delete_fails state2 store2)
       = filter (\<lambda>i. earliest_failure archive_delete_fails (snapshot_ids store2)
                        < delete_time archive_delete_fails i) (snapshot_ids store2)"
    by blast+
  have q: "pending (handleResetAndArchive archive_delete_fails state2 store2) = [''d2'']"
    unfolding p2(2) ef unfolding ids by (simp add: archive_delete_fails_def archive_ok_def)
  show ?thesis
    by (intro conjI) (fact guards_state2 e1 e2 a1 a2 ef b1 p1 p2(1) q)+
qed

text \<open>
  Claim C3 as written does not hold: in the run below the delete of \<open>d1\<close> fails after one
  time unit, and the handler has returned (\<open>isArchiving\<close> is reset) while the delete of
  \<open>d2\<close>, which settles after five, is still in flight.
\<close>

theorem completion_not_gated_counterexample:
  "filter is_delete (calls (handleResetAndArchive archive_delete_fails state2 store2))
     = [DeleteDoc ''d1'', DeleteDoc ''d2'']
   \<and> delete_time archive_delete_fails ''d1'' = 1
   \<and> delete_time archive_delete_fails ''d2'' = 5
   \<and> isArchiving (app (handleResetAndArchive archive_delete_fails state2 store2)) = False
   \<and> pending (handleResetAndArchive archive_delete_fails state2 store2) = [''d2'']"
  by (simp add: run_delete_fails) (simp add: archive_delete_fails_def archive_ok_def)

end
